theory Spec2Isabelle
  imports Complex_Main "HOL-Library.Word" "HOL-Library.AList"
begin

unbundle bit_operations_syntax

section \<open>Values of the host language\<close>

text \<open>
  The worker handles documents read from the document store. A value is one of:
  \<^verbatim>\<open>undefined\<close>, \<^verbatim>\<open>null\<close>, a boolean, a number, a string, a driver \<^verbatim>\<open>ObjectId\<close> (twelve
  bytes, so a 96-bit word), a \<^verbatim>\<open>Date\<close> (its time value in epoch milliseconds, or no time
  value for an invalid date), an array, or a plain object. A plain object is the list of
  its own enumerable entries in the order \<^verbatim>\<open>Object.entries\<close> reports them; keys that
  look like array indices, which the host puts first, get no special treatment.

  Numbers are doubles in the source. The model keeps the three non-finite doubles apart
  and computes with finite ones as exact rationals: rounding and overflow of the
  arithmetic are outside the model.
\<close>

datatype jsnum = Fin rat | NaN | PosInf | NegInf

type_synonym ObjectId = "96 word"

datatype jsval =
    Undefined
  | Null
  | Bool bool
  | Num jsnum
  | Str string
  | Oid ObjectId
  | DateV "int option"
  | Arr "jsval list"
  | Obj "(string \<times> jsval) list"

text \<open>
  Library functions of the platform that the repository calls but does not define are
  parameters of the model, gathered in one record: \<^verbatim>\<open>JSON.stringify\<close>,
  \<^verbatim>\<open>Date.prototype.toISOString\<close> on a valid time value, \<^verbatim>\<open>String.prototype.localeCompare\<close>,
  the \<^verbatim>\<open>Number(...)\<close> conversion and \<^verbatim>\<open>path.join\<close>. Every theorem below holds for
  every such record unless it states an assumption about a field.
\<close>

record host =
  JSON_stringify :: "jsval \<Rightarrow> string"
  toISOString :: "int \<Rightarrow> string"
  localeCompare :: "string \<Rightarrow> string \<Rightarrow> int"
  Number :: "jsval \<Rightarrow> jsnum"
  path_join :: "string \<Rightarrow> string \<Rightarrow> string"

datatype error =
    RangeError_InvalidTime
  | BSONError_InvalidHex
  | ObjectIdRequired
  | SnapshotSizeExceeded int
  | PdfRowLimitExceeded int
  | ReduceCardinalityExceeded int
  | NonNumeric string
  | InvalidReduceSpec string

text \<open>\<^verbatim>\<open>ObjectId.prototype.toHexString\<close>: the twelve bytes as 24 lower-case hex digits.\<close>

definition hexDigit :: "nat \<Rightarrow> char" where
  "hexDigit n = ''0123456789abcdef'' ! (n mod 16)"

definition toHexString :: "ObjectId \<Rightarrow> string" where
  "toHexString w = map (\<lambda>i. hexDigit (unat (drop_bit (4 * i) w AND 15))) (rev [0..<24])"

section \<open>helpers: sanitizeFilters\<close>

text \<open>
  \<^verbatim>\<open>key.startsWith('$')\<close> and \<^verbatim>\<open>key.includes('.')\<close>.
\<close>

fun startsWith :: "string \<Rightarrow> char \<Rightarrow> bool" where
  "startsWith [] c = False"
| "startsWith (x # xs) c = (x = c)"

definition includesChar :: "string \<Rightarrow> char \<Rightarrow> bool" where
  "includesChar key c = (c \<in> set key)"

definition droppedKey :: "string \<Rightarrow> bool" where
  "droppedKey key = (startsWith key CHR ''$'' \<or> includesChar key CHR ''.'')"





fun keysCleanDeep :: "jsval \<Rightarrow> bool"
  and itemsCleanDeep :: "jsval list \<Rightarrow> bool"
  and entriesCleanDeep :: "(string \<times> jsval) list \<Rightarrow> bool"
where
  "keysCleanDeep (Obj kvs) = entriesCleanDeep kvs"
| "keysCleanDeep (Arr xs) = itemsCleanDeep xs"
| "keysCleanDeep _ = True"
| "itemsCleanDeep [] = True"
| "itemsCleanDeep (x # xs) = (keysCleanDeep x \<and> itemsCleanDeep xs)"
| "entriesCleanDeep [] = True"
| "entriesCleanDeep ((key, v) # rest) =
     (\<not> droppedKey key \<and> keysCleanDeep v \<and> entriesCleanDeep rest)"


section \<open>helpers: normalizeValue\<close>

text \<open>
  \<^verbatim>\<open>normalizeValue\<close>. \<^verbatim>\<open>toISOString\<close> throws a \<^verbatim>\<open>RangeError\<close> on an invalid date, which
  leaves the whole call; \<open>normalizeItems\<close> is the \<^verbatim>\<open>value.map(...)\<close> over an array and
  \<open>normalizeEntries\<close> the map over \<^verbatim>\<open>Object.entries(value)\<close> rebuilt by
  \<^verbatim>\<open>Object.fromEntries\<close>.
\<close>

fun normalizeValue :: "host \<Rightarrow> jsval \<Rightarrow> error + jsval"
  and normalizeItems :: "host \<Rightarrow> jsval list \<Rightarrow> error + jsval list"
  and normalizeEntries ::
    "host \<Rightarrow> (string \<times> jsval) list \<Rightarrow> error + (string \<times> jsval) list"
where
  "normalizeValue h (Oid w) = Inr (Str (toHexString w))"
| "normalizeValue h (DateV None) = Inl RangeError_InvalidTime"
| "normalizeValue h (DateV (Some t)) = Inr (Str (toISOString h t))"
| "normalizeValue h (Arr xs) =
     (case normalizeItems h xs of Inl e \<Rightarrow> Inl e | Inr ys \<Rightarrow> Inr (Arr ys))"
| "normalizeValue h (Obj kvs) =
     (case normalizeEntries h kvs of Inl e \<Rightarrow> Inl e | Inr ys \<Rightarrow> Inr (Obj ys))"
| "normalizeValue h v = Inr v"
| "normalizeItems h [] = Inr []"
| "normalizeItems h (x # xs) =
     (case normalizeValue h x of
        Inl e \<Rightarrow> Inl e
      | Inr y \<Rightarrow> (case normalizeItems h xs of Inl e \<Rightarrow> Inl e | Inr ys \<Rightarrow> Inr (y # ys)))"
| "normalizeEntries h [] = Inr []"
| "normalizeEntries h ((key, x) # xs) =
     (case normalizeValue h x of
        Inl e \<Rightarrow> Inl e
      | Inr y \<Rightarrow>
          (case normalizeEntries h xs of Inl e \<Rightarrow> Inl e | Inr ys \<Rightarrow> Inr ((key, y) # ys)))"

text \<open>A value with no identifier and no date at any depth.\<close>

fun portable :: "jsval \<Rightarrow> bool"
  and portableItems :: "jsval list \<Rightarrow> bool"
  and portableEntries :: "(string \<times> jsval) list \<Rightarrow> bool"
where
  "portable (Oid w) = False"
| "portable (DateV t) = False"
| "portable (Arr xs) = portableItems xs"
| "portable (Obj kvs) = portableEntries kvs"
| "portable _ = True"
| "portableItems [] = True"
| "portableItems (x # xs) = (portable x \<and> portableItems xs)"
| "portableEntries [] = True"
| "portableEntries ((key, v) # rest) = (portable v \<and> portableEntries rest)"

text \<open>A value whose dates all have a time value.\<close>

fun datesValid :: "jsval \<Rightarrow> bool"
  and datesValidItems :: "jsval list \<Rightarrow> bool"
  and datesValidEntries :: "(string \<times> jsval) list \<Rightarrow> bool"
where
  "datesValid (DateV t) = (t \<noteq> None)"
| "datesValid (Arr xs) = datesValidItems xs"
| "datesValid (Obj kvs) = datesValidEntries kvs"
| "datesValid _ = True"
| "datesValidItems [] = True"
| "datesValidItems (x # xs) = (datesValid x \<and> datesValidItems xs)"
| "datesValidEntries [] = True"
| "datesValidEntries ((key, v) # rest) = (datesValid v \<and> datesValidEntries rest)"

text \<open>Sequencing of two calls that may throw.\<close>

definition andThen :: "error + 'a \<Rightarrow> ('a \<Rightarrow> error + 'b) \<Rightarrow> error + 'b" where
  "andThen r f = (case r of Inl e \<Rightarrow> Inl e | Inr v \<Rightarrow> f v)"

section \<open>Numbers in template strings\<close>

text \<open>
  A template string renders a number with \<^verbatim>\<open>Number.prototype.toString\<close>. On an integer of
  magnitude below \<open>10^21\<close> that is its decimal numeral, which is what \<open>numberToString\<close>
  computes; the configuration values rendered below are such integers.
\<close>

definition digitChar :: "nat \<Rightarrow> char" where
  "digitChar n = ''0123456789'' ! (n mod 10)"

fun decimal :: "nat \<Rightarrow> string" where
  "decimal n = (if n < 10 then [digitChar n] else decimal (n div 10) @ [digitChar n])"

declare decimal.simps [simp del]

definition numberToString :: "int \<Rightarrow> string" where
  "numberToString n = (if n < 0 then CHR ''-'' # decimal (nat (- n)) else decimal (nat n))"

section \<open>A host for the examples\<close>

text \<open>
  The examples below are evaluated on one concrete host. Its serializer renders
  integers, strings that need no escaping, identifiers, arrays and objects; its
  \<^verbatim>\<open>toISOString\<close> is the proleptic Gregorian calendar in UTC; its \<^verbatim>\<open>localeCompare\<close>
  orders strings by character code; its \<^verbatim>\<open>Number\<close> reads numbers, booleans, \<^verbatim>\<open>null\<close>, dates
  and strings of decimal digits.
\<close>

definition padded :: "nat \<Rightarrow> nat \<Rightarrow> string" where
  "padded width n = map (\<lambda>i. digitChar (n div 10 ^ i)) (rev [0..<width])"

definition yearOfEra :: "int \<Rightarrow> int" where
  "yearOfEra doe = (doe - doe div 1460 + doe div 36524 - doe div 146096) div 365"

definition dayOfYear :: "int \<Rightarrow> int" where
  "dayOfYear doe = doe - (365 * yearOfEra doe + yearOfEra doe div 4 - yearOfEra doe div 100)"

definition monthIndex :: "int \<Rightarrow> int" where
  "monthIndex doe = (5 * dayOfYear doe + 2) div 153"

definition dayOfMonth :: "int \<Rightarrow> int" where
  "dayOfMonth doe = dayOfYear doe - (153 * monthIndex doe + 2) div 5 + 1"

definition monthOf :: "int \<Rightarrow> int" where
  "monthOf doe = (if monthIndex doe < 10 then monthIndex doe + 3 else monthIndex doe - 9)"

definition yearOf :: "int \<Rightarrow> int" where
  "yearOf z =
     yearOfEra (z mod 146097) + (z div 146097) * 400
       + (if monthOf (z mod 146097) \<le> 2 then 1 else 0)"

definition yearText :: "int \<Rightarrow> string" where
  "yearText y =
     (if 0 \<le> y \<and> y \<le> 9999 then padded 4 (nat y)
      else (if y < 0 then ''-'' else ''+'') @ padded 6 (nat \<bar>y\<bar>))"

definition isoDate :: "int \<Rightarrow> string" where
  "isoDate z =
     yearText (yearOf z) @ ''-'' @ padded 2 (nat (monthOf (z mod 146097)))
       @ ''-'' @ padded 2 (nat (dayOfMonth (z mod 146097)))"

definition isoTime :: "nat \<Rightarrow> string" where
  "isoTime ms =
     padded 2 (ms div 3600000) @ '':'' @ padded 2 (ms div 60000 mod 60)
       @ '':'' @ padded 2 (ms div 1000 mod 60) @ ''.'' @ padded 3 (ms mod 1000)"

definition isoOfMillis :: "int \<Rightarrow> string" where
  "isoOfMillis t =
     isoDate (t div 86400000 + 719468) @ ''T'' @ isoTime (nat (t mod 86400000)) @ ''Z''"

fun compareStrings :: "string \<Rightarrow> string \<Rightarrow> int" where
  "compareStrings [] [] = 0"
| "compareStrings [] (y # ys) = - 1"
| "compareStrings (x # xs) [] = 1"
| "compareStrings (x # xs) (y # ys) =
     (if (of_char x :: nat) < of_char y then - 1
      else if (of_char y :: nat) < of_char x then 1
      else compareStrings xs ys)"

definition isDigit :: "char \<Rightarrow> bool" where
  "isDigit c = (c \<in> set ''0123456789'')"

definition readDecimal :: "string \<Rightarrow> nat" where
  "readDecimal s = foldl (\<lambda>acc c. 10 * acc + (of_char c - of_char CHR ''0'')) 0 s"

fun numberOf :: "jsval \<Rightarrow> jsnum" where
  "numberOf (Num n) = n"
| "numberOf Null = Fin 0"
| "numberOf (Bool b) = Fin (if b then 1 else 0)"
| "numberOf (Str s) = (if list_all isDigit s then Fin (of_nat (readDecimal s)) else NaN)"
| "numberOf (DateV (Some t)) = Fin (of_int t)"
| "numberOf _ = NaN"

fun stringifyPlain :: "jsval \<Rightarrow> string"
  and stringifyItems :: "jsval list \<Rightarrow> string"
  and stringifyEntries :: "(string \<times> jsval) list \<Rightarrow> string"
where
  "stringifyPlain (Bool b) = (if b then ''true'' else ''false'')"
| "stringifyPlain (Num (Fin r)) = numberToString \<lfloor>r\<rfloor>"
| "stringifyPlain (Str s) = CHR 0x22 # s @ [CHR 0x22]"
| "stringifyPlain (Oid w) = CHR 0x22 # toHexString w @ [CHR 0x22]"
| "stringifyPlain (DateV (Some t)) = CHR 0x22 # isoOfMillis t @ [CHR 0x22]"
| "stringifyPlain (Arr xs) = ''['' @ stringifyItems xs @ '']''"
| "stringifyPlain (Obj kvs) = ''{'' @ stringifyEntries kvs @ ''}''"
| "stringifyPlain _ = ''null''"
| "stringifyItems [] = []"
| "stringifyItems [x] = stringifyPlain x"
| "stringifyItems (x # y # xs) = stringifyPlain x @ '','' @ stringifyItems (y # xs)"
| "stringifyEntries [] = []"
| "stringifyEntries [(key, v)] = CHR 0x22 # key @ [CHR 0x22] @ '':'' @ stringifyPlain v"
| "stringifyEntries ((key, v) # p # rest) =
     CHR 0x22 # key @ [CHR 0x22] @ '':'' @ stringifyPlain v @ '','' @ stringifyEntries (p # rest)"

definition exampleHost :: host where
  "exampleHost =
     \<lparr> JSON_stringify = stringifyPlain,
       toISOString = isoOfMillis,
       localeCompare = compareStrings,
       Number = numberOf,
       path_join = (\<lambda>dir name. dir @ ''/'' @ name) \<rparr>"

section \<open>Error messages\<close>

text \<open>
  The source throws \<^verbatim>\<open>Error\<close> objects that differ in their message only; the model names
  each throw site by a constructor of \<open>error\<close> and \<open>errorMessage\<close> gives the message
  the source builds there.
\<close>

fun errorMessage :: "error \<Rightarrow> string" where
  "errorMessage (SnapshotSizeExceeded maxBytes) =
     ''Temporary snapshot size exceeded REPORT_TMP_MAX_BYTES ('' @ numberToString maxBytes
       @ '' bytes)''"
| "errorMessage (PdfRowLimitExceeded pdfMaxRows) =
     ''PDF row limit exceeded. max='' @ numberToString pdfMaxRows @ '', received>''
       @ numberToString pdfMaxRows"
| "errorMessage (ReduceCardinalityExceeded maxGroups) =
     ''Reduce group cardinality exceeded REPORT_REDUCE_MAX_GROUPS (''
       @ numberToString maxGroups @ '')''"
| "errorMessage (NonNumeric fieldName) =
     ''Non numeric value found in reduce field: '' @ fieldName"
| "errorMessage (InvalidReduceSpec msg) = msg"
| "errorMessage ObjectIdRequired =
     ''objectIdRange partition requires ObjectId _id field in source collection''"
| "errorMessage RangeError_InvalidTime = ''Invalid time value''"
| "errorMessage BSONError_InvalidHex =
     ''input must be a 24 character hex string, 12 byte Uint8Array, or an integer''"

text \<open>
  A test \<^verbatim>\<open>toThrow(/text/i)\<close> with a literal \<open>text\<close>: \<open>text\<close> occurs in the message,
  letter case ignored.
\<close>

definition lowerChar :: "char \<Rightarrow> char" where
  "lowerChar c =
     (if c \<in> set ''ABCDEFGHIJKLMNOPQRSTUVWXYZ'' then char_of (of_char c + (32::nat)) else c)"

fun isPrefixCI :: "string \<Rightarrow> string \<Rightarrow> bool" where
  "isPrefixCI [] ys = True"
| "isPrefixCI (x # xs) [] = False"
| "isPrefixCI (x # xs) (y # ys) = (lowerChar x = lowerChar y \<and> isPrefixCI xs ys)"

fun containsCI :: "string \<Rightarrow> string \<Rightarrow> bool" where
  "containsCI pat [] = isPrefixCI pat []"
| "containsCI pat (y # ys) = (isPrefixCI pat (y # ys) \<or> containsCI pat ys)"

section \<open>partitioner\<close>

record ObjectIdRange =
  index :: int
  startInclusive :: ObjectId
  endExclusive :: "ObjectId option"

definition objectIdToBigInt :: "ObjectId \<Rightarrow> int" where
  "objectIdToBigInt oid = uint oid"

text \<open>
  \<^verbatim>\<open>bigIntToObjectId\<close>: the last 24 characters of the hex numeral padded to 24, given to
  the \<^verbatim>\<open>ObjectId\<close> constructor. On a value that is not negative these are its last 24 hex
  digits. The numeral of a negative value begins with a minus sign, which survives in
  the last 24 characters unless the value has 24 digits or more; the constructor
  rejects a string that is not hex.
\<close>

definition bigIntToObjectId :: "int \<Rightarrow> error + ObjectId" where
  "bigIntToObjectId v =
     (if 0 \<le> v then Inr (word_of_int v)
      else if 16 ^ 23 \<le> - v then Inr (word_of_int (- v))
      else Inl BSONError_InvalidHex)"

text \<open>
  The \<^verbatim>\<open>for\<close> loop of \<^verbatim>\<open>buildObjectIdRanges\<close>; \<^verbatim>\<open>break\<close> returns the ranges pushed so far.
\<close>

function rangesLoop ::
  "int \<Rightarrow> int \<Rightarrow> int \<Rightarrow> int \<Rightarrow> int \<Rightarrow> ObjectIdRange list \<Rightarrow> error + ObjectIdRange list"
where
  "rangesLoop minN maxN chunks chunkSize i ranges =
     (if i < chunks then
        (let start = minN + i * chunkSize in
         if start > maxN then Inr ranges
         else
           (let nextStart = start + chunkSize in
            case bigIntToObjectId start of
              Inl e \<Rightarrow> Inl e
            | Inr s \<Rightarrow>
                (case (if nextStart \<le> maxN
                       then (case bigIntToObjectId nextStart of
                               Inl e \<Rightarrow> Inl e | Inr n \<Rightarrow> Inr (Some n))
                       else Inr None) of
                   Inl e \<Rightarrow> Inl e
                 | Inr e \<Rightarrow>
                     rangesLoop minN maxN chunks chunkSize (i + 1)
                       (ranges @ [\<lparr> index = i, startInclusive = s, endExclusive = e \<rparr>]))))
      else Inr ranges)"
  by pat_completeness auto
termination
  by (relation "measure (\<lambda>(minN, maxN, chunks, chunkSize, i, ranges). nat (chunks - i))") auto

declare rangesLoop.simps [simp del]

text \<open>
  \<^verbatim>\<open>buildObjectIdRanges\<close>. \<^verbatim>\<open>requestedChunks\<close> is an integer (the intake schema and the
  configuration schema both demand one). The division of big integers truncates; its
  operands are positive here, where \<open>div\<close> agrees with it.
\<close>

definition buildObjectIdRanges ::
  "ObjectId \<Rightarrow> ObjectId \<Rightarrow> int \<Rightarrow> error + ObjectIdRange list"
where
  "buildObjectIdRanges minId maxId requestedChunks =
     (let minN = objectIdToBigInt minId; maxN = objectIdToBigInt maxId in
      if maxN < minN then Inr []
      else
        (let chunks = max 1 requestedChunks in
         if chunks = 1
         then Inr [\<lparr> index = 0, startInclusive = minId, endExclusive = None \<rparr>]
         else
           (let span = maxN - minN + 1;
                chunkSize = (span + chunks - 1) div chunks
            in rangesLoop minN maxN chunks chunkSize 0 [])))"

definition rangeToIdMatch :: "ObjectIdRange \<Rightarrow> jsval" where
  "rangeToIdMatch r =
     (case endExclusive r of
        None \<Rightarrow> Obj [(''_id'', Obj [(''$gte'', Oid (startInclusive r))])]
      | Some e \<Rightarrow>
          Obj [(''_id'', Obj [(''$gte'', Oid (startInclusive r)), (''$lt'', Oid e)])])"

text \<open>
  What the document store makes of such a predicate: identifiers compare as unsigned
  96-bit integers, and a document matches when its \<^verbatim>\<open>_id\<close> meets every condition.
\<close>

fun idCondition :: "ObjectId \<Rightarrow> string \<times> jsval \<Rightarrow> bool" where
  "idCondition x (operator, Oid b) =
     (if operator = ''$gte'' then b \<le> x else if operator = ''$lt'' then x < b else False)"
| "idCondition x _ = False"

fun idMatches :: "jsval \<Rightarrow> ObjectId \<Rightarrow> bool" where
  "idMatches (Obj [(key, Obj conditions)]) x = (key = ''_id'' \<and> list_all (idCondition x) conditions)"
| "idMatches _ x = False"

text \<open>
  The part of \<^verbatim>\<open>runPartitionedReduce\<close> that decides the ranges and the reported
  \<^verbatim>\<open>chunks\<close>. \<open>minDoc\<close> and \<open>maxDoc\<close> are the \<^verbatim>\<open>_id\<close> values of the two documents the
  store returned, or \<open>None\<close> where it returned no document.
\<close>

record PartitionSpec =
  chunks :: "int option"

definition partitionRanges ::
  "jsval \<Rightarrow> jsval \<Rightarrow> PartitionSpec option \<Rightarrow> int \<Rightarrow> error + ObjectIdRange list"
where
  "partitionRanges minId maxId partitionSpec partitionDefaultChunks =
     (case (minId, maxId) of
        (Oid a, Oid b) \<Rightarrow>
          (let requestedChunks =
                 (case partitionSpec of
                    None \<Rightarrow> partitionDefaultChunks
                  | Some ps \<Rightarrow>
                      (case chunks ps of None \<Rightarrow> partitionDefaultChunks | Some c \<Rightarrow> c))
           in buildObjectIdRanges a b requestedChunks)
      | _ \<Rightarrow> Inl ObjectIdRequired)"

definition reportedChunks ::
  "jsval option \<Rightarrow> jsval option \<Rightarrow> PartitionSpec option \<Rightarrow> int \<Rightarrow> error + nat"
where
  "reportedChunks minDoc maxDoc partitionSpec partitionDefaultChunks =
     (case (minDoc, maxDoc) of
        (Some minId, Some maxId) \<Rightarrow>
          (case partitionRanges minId maxId partitionSpec partitionDefaultChunks of
             Inl e \<Rightarrow> Inl e
           | Inr ranges \<Rightarrow> Inr (length ranges))
      | _ \<Rightarrow> Inr 0)"

text \<open>
  The loop in closed form, for the proofs: the range of index \<open>i\<close>, the number of ranges
  the loop pushes, and the whole list for a dataset with \<open>minId \<le> maxId\<close>.
\<close>

definition rangeAt :: "int \<Rightarrow> int \<Rightarrow> int \<Rightarrow> nat \<Rightarrow> ObjectIdRange" where
  "rangeAt minN maxN chunkSize i =
     \<lparr> index = int i,
       startInclusive = word_of_int (minN + int i * chunkSize),
       endExclusive =
         (if minN + (int i + 1) * chunkSize \<le> maxN
          then Some (word_of_int (minN + (int i + 1) * chunkSize)) else None) \<rparr>"

definition rangeCount :: "int \<Rightarrow> int \<Rightarrow> int \<Rightarrow> int \<Rightarrow> nat" where
  "rangeCount minN maxN k chunkSize = nat (min k ((maxN - minN) div chunkSize + 1))"

definition chunkSizeOf :: "ObjectId \<Rightarrow> ObjectId \<Rightarrow> int \<Rightarrow> int" where
  "chunkSizeOf minId maxId requestedChunks =
     (uint maxId - uint minId + 1 + max 1 requestedChunks - 1) div max 1 requestedChunks"

definition rangesOf :: "ObjectId \<Rightarrow> ObjectId \<Rightarrow> int \<Rightarrow> ObjectIdRange list" where
  "rangesOf minId maxId requestedChunks =
     map (rangeAt (uint minId) (uint maxId) (chunkSizeOf minId maxId requestedChunks))
       [0 ..< nat ((uint maxId - uint minId) div chunkSizeOf minId maxId requestedChunks + 1)]"

text \<open>
  The chunk count as the specification words it: the requested count capped by a
  configured maximum.
\<close>

definition specChunkCount :: "int \<Rightarrow> int \<Rightarrow> int" where
  "specChunkCount requestedChunks partitionCapMax = min requestedChunks partitionCapMax"

section \<open>helpers: writeSnapshot\<close>

text \<open>
  Strings are byte sequences here, as the file holds them (UTF-8), so that
  \<^verbatim>\<open>Buffer.byteLength\<close> is \<open>length\<close>. The file system is a map from paths to contents;
  the write stream accepts every write, and \<^verbatim>\<open>rm\<close> removes the file.
\<close>

record SnapshotResult =
  path :: string
  rowCount :: nat
  bytes :: int

record writerState =
  wRowCount :: nat
  wBytes :: int
  wContent :: string

definition snapshotLine :: "host \<Rightarrow> jsval \<Rightarrow> string" where
  "snapshotLine h row = JSON_stringify h row @ [CHR 0x0A]"

text \<open>
  The \<^verbatim>\<open>for await\<close> loop of \<^verbatim>\<open>writeSnapshot\<close>. On the throw it returns the state of the
  moment: \<^verbatim>\<open>bytes\<close> already counts the line that went over, the file does not hold it.
\<close>

fun writeRows :: "host \<Rightarrow> jsval list \<Rightarrow> int \<Rightarrow> writerState \<Rightarrow> error option \<times> writerState" where
  "writeRows h [] maxBytes st = (None, st)"
| "writeRows h (row # rows) maxBytes st =
     (let line = snapshotLine h row;
          lineBytes = int (length line);
          st1 = st\<lparr> wBytes := wBytes st + lineBytes \<rparr>
      in if wBytes st1 > maxBytes then (Some (SnapshotSizeExceeded maxBytes), st1)
         else writeRows h rows maxBytes
                (st1\<lparr> wContent := wContent st1 @ line, wRowCount := wRowCount st1 + 1 \<rparr>))"

definition writeSnapshot ::
  "host \<Rightarrow> (string \<rightharpoonup> string) \<Rightarrow> jsval list \<Rightarrow> string \<Rightarrow> string \<Rightarrow> int
     \<Rightarrow> (error + SnapshotResult) \<times> (string \<rightharpoonup> string)"
where
  "writeSnapshot h files rows tmpDir fileName maxBytes =
     (let p = path_join h tmpDir fileName;
          r = writeRows h rows maxBytes \<lparr> wRowCount = 0, wBytes = 0, wContent = [] \<rparr>
      in case fst r of
           Some e \<Rightarrow> (Inl e, files(p := None))
         | None \<Rightarrow>
             (Inr \<lparr> path = p, rowCount = wRowCount (snd r), bytes = wBytes (snd r) \<rparr>,
              files(p \<mapsto> wContent (snd r))))"

text \<open>The bytes of the first \<open>k\<close> lines.\<close>

definition cumulativeBytes :: "host \<Rightarrow> jsval list \<Rightarrow> nat \<Rightarrow> int" where
  "cumulativeBytes h rows k = int (length (concat (map (snapshotLine h) (take k rows))))"

text \<open>The state the loop starts from.\<close>

definition initialWriter :: writerState where
  "initialWriter = \<lparr> wRowCount = 0, wBytes = 0, wContent = [] \<rparr>"

section \<open>report-generators: createPdfStream\<close>

text \<open>
  The asynchronous body of \<^verbatim>\<open>createPdfStream\<close> over the rows that arrive. The document
  is the list of text lines written to it. The result says how the byte stream ends:
  with no error after \<^verbatim>\<open>doc.end()\<close>, or destroyed with the error thrown.
\<close>

definition pdfLine :: "host \<Rightarrow> int \<Rightarrow> jsval \<Rightarrow> string" where
  "pdfLine h i row = numberToString i @ ''. '' @ JSON_stringify h row"

fun pdfRows ::
  "host \<Rightarrow> int option \<Rightarrow> jsval list \<Rightarrow> int \<Rightarrow> string list \<Rightarrow> error option \<times> string list"
where
  "pdfRows h pdfMaxRows [] i doc = (None, doc)"
| "pdfRows h pdfMaxRows (row # rest) i doc =
     (let i1 = i + 1 in
      case pdfMaxRows of
        None \<Rightarrow> pdfRows h pdfMaxRows rest i1 (doc @ [pdfLine h i1 row])
      | Some m \<Rightarrow>
          if i1 > m then (Some (PdfRowLimitExceeded m), doc)
          else pdfRows h pdfMaxRows rest i1 (doc @ [pdfLine h i1 row]))"

definition createPdfStream :: "host \<Rightarrow> jsval list \<Rightarrow> int option \<Rightarrow> error option \<times> string list" where
  "createPdfStream h rows pdfMaxRows = pdfRows h pdfMaxRows rows 0 [''Report'']"

text \<open>The lines of rows numbered from \<open>i + 1\<close>.\<close>

fun pdfLines :: "host \<Rightarrow> int \<Rightarrow> jsval list \<Rightarrow> string list" where
  "pdfLines h i [] = []"
| "pdfLines h i (row # rest) = pdfLine h (i + 1) row # pdfLines h (i + 1) rest"

section \<open>reduce-engine\<close>

datatype ReduceOperation = OpCount | OpSum | OpMin | OpMax | OpAvg

record ReduceMetricSpec =
  op :: ReduceOperation
  field :: "string option"
  as :: string

record ReduceSpec =
  groupBy :: "string list"
  metrics :: "ReduceMetricSpec list"

record AverageState =
  sum' :: rat
  count :: rat

text \<open>
  \<^verbatim>\<open>values\<close> (here \<open>values'\<close>) and \<^verbatim>\<open>averages\<close> are \<^verbatim>\<open>Map\<close>s, the accumulator's state is a \<^verbatim>\<open>Map\<close> from the
  group key to the group's state. A \<^verbatim>\<open>Map\<close> is the list of its entries in insertion
  order: \<^verbatim>\<open>get\<close> is \<open>map_of\<close>, \<^verbatim>\<open>set\<close> is \<open>AList.update\<close> and \<^verbatim>\<open>size\<close> the length.
\<close>

record ReduceGroupState =
  group :: "(string \<times> jsval) list"
  values' :: "(string \<times> jsval) list"
  averages :: "(string \<times> AverageState) list"
  inputCount :: rat

record ReduceSummary =
  rows :: "(string \<times> jsval) list list"
  rowsIn :: rat
  rowsOut :: nat

definition AVG_SUM_PREFIX :: string where "AVG_SUM_PREFIX = ''__avg_sum__''"
definition AVG_COUNT_PREFIX :: string where "AVG_COUNT_PREFIX = ''__avg_count__''"
definition INPUT_COUNT_FIELD :: string where "INPUT_COUNT_FIELD = ''__input_count''"

text \<open>
  Reading a property of a record, \<^verbatim>\<open>doc[key]\<close>, and of a \<^verbatim>\<open>Map\<close>, \<^verbatim>\<open>map.get(key)\<close>: the value,
  or \<^verbatim>\<open>undefined\<close>. Only own properties are seen. \<open>orNull\<close> is \<^verbatim>\<open>value ?? null\<close>.
\<close>

definition getField :: "(string \<times> jsval) list \<Rightarrow> string \<Rightarrow> jsval" where
  "getField doc key = (case map_of doc key of None \<Rightarrow> Undefined | Some v \<Rightarrow> v)"

definition orNull :: "jsval \<Rightarrow> jsval" where
  "orNull v = (if v = Undefined \<or> v = Null then Null else v)"

definition numericFrom :: "host \<Rightarrow> jsval \<Rightarrow> string \<Rightarrow> error + rat" where
  "numericFrom h v fieldName =
     (if v = Null \<or> v = Undefined then Inr 0
      else (case Number h v of Fin r \<Rightarrow> Inr r | _ \<Rightarrow> Inl (NonNumeric fieldName)))"

text \<open>The test of the pattern \<^verbatim>\<open>/^[A-Za-z0-9_]+$/\<close>.\<close>

definition isWordChar :: "char \<Rightarrow> bool" where
  "isWordChar c =
     (c \<in> set ''ABCDEFGHIJKLMNOPQRSTUVWXYZabcdefghijklmnopqrstuvwxyz0123456789_'')"

definition isIdentifier :: "string \<Rightarrow> bool" where
  "isIdentifier s = (s \<noteq> [] \<and> list_all isWordChar s)"

fun validateMetrics :: "string list \<Rightarrow> ReduceMetricSpec list \<Rightarrow> error option" where
  "validateMetrics aliases [] = None"
| "validateMetrics aliases (metric # rest) =
     (if as metric = [] \<or> \<not> isIdentifier (as metric)
      then Some (InvalidReduceSpec (''Invalid metric alias: '' @ as metric))
      else if as metric \<in> set aliases
      then Some (InvalidReduceSpec (''Duplicated metric alias: '' @ as metric))
      else if op metric \<noteq> OpCount
              \<and> (case field metric of None \<Rightarrow> True | Some f \<Rightarrow> f = [] \<or> \<not> isIdentifier f)
      then Some (InvalidReduceSpec (''Metric '' @ as metric @ '' requires a valid field''))
      else validateMetrics (as metric # aliases) rest)"

definition validateReduceSpec :: "ReduceSpec \<Rightarrow> error option" where
  "validateReduceSpec spec =
     (if metrics spec = []
      then Some (InvalidReduceSpec ''reduceSpec.metrics must contain at least one metric'')
      else (case find (\<lambda>groupField. \<not> isIdentifier groupField) (groupBy spec) of
              Some groupField \<Rightarrow>
                Some (InvalidReduceSpec (''Invalid groupBy field: '' @ groupField))
            | None \<Rightarrow> validateMetrics [] (metrics spec)))"

text \<open>
  \<^verbatim>\<open>Object.fromEntries\<close> assigns the entries one after another. \<^verbatim>\<open>decodeGroup\<close> reads the
  group fields off \<^verbatim>\<open>row._id\<close>, which the partition pipeline makes \<^verbatim>\<open>null\<close> or a plain
  object; of any other value the model reads no property.
\<close>

definition fromEntries :: "(string \<times> jsval) list \<Rightarrow> (string \<times> jsval) list" where
  "fromEntries es = foldl (\<lambda>acc (k, v). AList.update k v acc) [] es"

fun propertiesOf :: "jsval \<Rightarrow> (string \<times> jsval) list" where
  "propertiesOf (Obj kvs) = kvs"
| "propertiesOf _ = []"

fun isObjectValue :: "jsval \<Rightarrow> bool" where
  "isObjectValue (Obj kvs) = True"
| "isObjectValue (Arr xs) = True"
| "isObjectValue (Oid w) = True"
| "isObjectValue (DateV t) = True"
| "isObjectValue _ = False"

definition decodeGroup :: "string list \<Rightarrow> jsval \<Rightarrow> (string \<times> jsval) list" where
  "decodeGroup groupFields rawGroup =
     (if groupFields = [] then []
      else if \<not> isObjectValue rawGroup
        then fromEntries (map (\<lambda>f. (f, Null)) groupFields)
        else fromEntries
               (map (\<lambda>f. (f, orNull (getField (propertiesOf rawGroup) f))) groupFields))"

text \<open>
  \<^verbatim>\<open>pickComparable\<close> gives a number, a string or \<^verbatim>\<open>null\<close> (\<open>None\<close>); \<^verbatim>\<open>getTime\<close> of an invalid
  date is \<^verbatim>\<open>NaN\<close>. The operator \<^verbatim>\<open><\<close> on two such values compares two strings by their
  characters and otherwise compares numbers, a string being converted first; a
  comparison with \<^verbatim>\<open>NaN\<close> is false.
\<close>

datatype comparable = CNum jsnum | CStr string

fun pickComparable :: "jsval \<Rightarrow> comparable option" where
  "pickComparable Null = None"
| "pickComparable Undefined = None"
| "pickComparable (DateV None) = Some (CNum NaN)"
| "pickComparable (DateV (Some t)) = Some (CNum (Fin (of_int t)))"
| "pickComparable (Num n) = Some (CNum n)"
| "pickComparable (Str s) = Some (CStr s)"
| "pickComparable _ = None"

fun numLess :: "jsnum \<Rightarrow> jsnum \<Rightarrow> bool" where
  "numLess (Fin a) (Fin b) = (a < b)"
| "numLess (Fin a) PosInf = True"
| "numLess NegInf (Fin b) = True"
| "numLess NegInf PosInf = True"
| "numLess _ _ = False"

fun strLess :: "string \<Rightarrow> string \<Rightarrow> bool" where
  "strLess [] [] = False"
| "strLess [] (y # ys) = True"
| "strLess (x # xs) [] = False"
| "strLess (x # xs) (y # ys) =
     ((of_char x :: nat) < of_char y \<or> (x = y \<and> strLess xs ys))"

fun comparableNumber :: "host \<Rightarrow> comparable \<Rightarrow> jsnum" where
  "comparableNumber h (CNum n) = n"
| "comparableNumber h (CStr s) = Number h (Str s)"

fun lessThan' :: "host \<Rightarrow> comparable \<Rightarrow> comparable \<Rightarrow> bool" where
  "lessThan' h (CStr s) (CStr t) = strLess s t"
| "lessThan' h a b = numLess (comparableNumber h a) (comparableNumber h b)"

text \<open>
  \<^verbatim>\<open>mergeMetricValue\<close> mutates the group state; the model returns the new state. Each
  branch throws, if it does, before it writes.
\<close>

definition mergeMetricValue ::
  "host \<Rightarrow> ReduceGroupState \<Rightarrow> ReduceMetricSpec \<Rightarrow> (string \<times> jsval) list
     \<Rightarrow> error + ReduceGroupState"
where
  "mergeMetricValue h state metric doc =
     (if op metric = OpAvg then
        (case numericFrom h (getField doc (AVG_SUM_PREFIX @ as metric)) (as metric @ ''.sum'') of
           Inl e \<Rightarrow> Inl e
         | Inr s \<Rightarrow>
            (case numericFrom h (getField doc (AVG_COUNT_PREFIX @ as metric))
                    (as metric @ ''.count'') of
               Inl e \<Rightarrow> Inl e
             | Inr c \<Rightarrow>
                (let previous =
                       (case map_of (averages state) (as metric) of
                          None \<Rightarrow> \<lparr> sum' = 0, count = 0 \<rparr>
                        | Some a \<Rightarrow> a)
                 in Inr (state\<lparr> averages :=
                           AList.update (as metric)
                             \<lparr> sum' = sum' previous + s, count = count previous + c \<rparr>
                             (averages state) \<rparr>))))
      else if op metric = OpCount \<or> op metric = OpSum then
        (case numericFrom h (getField doc (as metric)) (as metric) of
           Inl e \<Rightarrow> Inl e
         | Inr current \<Rightarrow>
            (case numericFrom h (getField (values' state) (as metric)) (as metric) of
               Inl e \<Rightarrow> Inl e
             | Inr previous \<Rightarrow>
                 Inr (state\<lparr> values' :=
                        AList.update (as metric) (Num (Fin (previous + current)))
                          (values' state) \<rparr>)))
      else
        (let current = getField doc (as metric);
             previous = getField (values' state) (as metric)
         in if previous = Undefined
            then Inr (state\<lparr> values' := AList.update (as metric) (orNull current) (values' state) \<rparr>)
            else if current = Null \<or> current = Undefined then Inr state
            else
              (case (pickComparable current, pickComparable previous) of
                 (Some currentComparable, Some previousComparable) \<Rightarrow>
                   if (op metric = OpMin \<and> lessThan' h currentComparable previousComparable)
                      \<or> (op metric = OpMax \<and> lessThan' h previousComparable currentComparable)
                   then Inr (state\<lparr> values' := AList.update (as metric) current (values' state) \<rparr>)
                   else Inr state
               | _ \<Rightarrow> Inr state)))"

text \<open>
  The loop over \<^verbatim>\<open>spec.metrics\<close> in \<^verbatim>\<open>consume\<close>. A throw leaves the group state as the
  metrics before it made it.
\<close>

fun mergeMetrics ::
  "host \<Rightarrow> ReduceGroupState \<Rightarrow> ReduceMetricSpec list \<Rightarrow> (string \<times> jsval) list
     \<Rightarrow> error option \<times> ReduceGroupState"
where
  "mergeMetrics h current [] row = (None, current)"
| "mergeMetrics h current (metric # rest) row =
     (case mergeMetricValue h current metric row of
        Inl e \<Rightarrow> (Some e, current)
      | Inr next \<Rightarrow> mergeMetrics h next rest row)"

definition groupKey :: "host \<Rightarrow> ReduceSpec \<Rightarrow> (string \<times> jsval) list \<Rightarrow> string" where
  "groupKey h spec row = JSON_stringify h (Obj (decodeGroup (groupBy spec) (getField row ''_id'')))"

definition newGroupState :: "(string \<times> jsval) list \<Rightarrow> ReduceGroupState" where
  "newGroupState g = \<lparr> group = g, values' = [], averages = [], inputCount = 0 \<rparr>"

text \<open>
  \<^verbatim>\<open>consume\<close> of the accumulator, on the accumulator's state. It returns the error
  thrown, if any, and the state the call leaves behind: the cardinality check throws
  before anything is written, a later throw leaves what was written before it.
\<close>

definition consumeInto ::
  "host \<Rightarrow> ReduceSpec \<Rightarrow> (string \<times> ReduceGroupState) list \<Rightarrow> string \<Rightarrow> ReduceGroupState
     \<Rightarrow> (string \<times> jsval) list \<Rightarrow> error option \<times> (string \<times> ReduceGroupState) list"
where
  "consumeInto h spec state key current row =
     (case numericFrom h (getField row INPUT_COUNT_FIELD) INPUT_COUNT_FIELD of
        Inl e \<Rightarrow> (Some e, state)
      | Inr n \<Rightarrow>
          (let r = mergeMetrics h (current\<lparr> inputCount := inputCount current + n \<rparr>)
                     (metrics spec) row
           in (fst r, AList.update key (snd r) state)))"

definition consume ::
  "host \<Rightarrow> ReduceSpec \<Rightarrow> int option \<Rightarrow> (string \<times> ReduceGroupState) list
     \<Rightarrow> (string \<times> jsval) list \<Rightarrow> error option \<times> (string \<times> ReduceGroupState) list"
where
  "consume h spec maxGroups state row =
     (let g = decodeGroup (groupBy spec) (getField row ''_id'');
          key = JSON_stringify h (Obj g)
      in case map_of state key of
           None \<Rightarrow>
             (case maxGroups of
                Some m \<Rightarrow>
                  if int (length state) \<ge> m then (Some (ReduceCardinalityExceeded m), state)
                  else consumeInto h spec (AList.update key (newGroupState g) state) key
                         (newGroupState g) row
              | None \<Rightarrow>
                  consumeInto h spec (AList.update key (newGroupState g) state) key
                    (newGroupState g) row)
         | Some current \<Rightarrow> consumeInto h spec state key current row)"

text \<open>Consuming partial rows one after another; the first throw ends the run.\<close>

fun consumeAll ::
  "host \<Rightarrow> ReduceSpec \<Rightarrow> int option \<Rightarrow> (string \<times> ReduceGroupState) list
     \<Rightarrow> (string \<times> jsval) list list \<Rightarrow> error option \<times> (string \<times> ReduceGroupState) list"
where
  "consumeAll h spec maxGroups state [] = (None, state)"
| "consumeAll h spec maxGroups state (row # rest) =
     (case consume h spec maxGroups state row of
        (Some e, state1) \<Rightarrow> (Some e, state1)
      | (None, state1) \<Rightarrow> consumeAll h spec maxGroups state1 rest)"

text \<open>
  \<^verbatim>\<open>Array.prototype.sort\<close> is stable; with a comparator that is a total preorder its
  result is the one stable arrangement in ascending order, which insertion from the
  right computes. An entry goes before the first entry it does not compare above.
\<close>

fun insertEntry :: "host \<Rightarrow> string \<times> 'a \<Rightarrow> (string \<times> 'a) list \<Rightarrow> (string \<times> 'a) list" where
  "insertEntry h e [] = [e]"
| "insertEntry h e (x # xs) =
     (if localeCompare h (fst e) (fst x) \<le> 0 then e # x # xs else x # insertEntry h e xs)"

definition sortEntries :: "host \<Rightarrow> (string \<times> 'a) list \<Rightarrow> (string \<times> 'a) list" where
  "sortEntries h es = foldr (insertEntry h) es []"

text \<open>What \<^verbatim>\<open>toReduceSummary\<close> stores under a metric's alias.\<close>

definition metricOutput :: "ReduceGroupState \<Rightarrow> ReduceMetricSpec \<Rightarrow> jsval" where
  "metricOutput v metric =
     (if op metric = OpAvg then
        (let avg = (case map_of (averages v) (as metric) of
                      None \<Rightarrow> \<lparr> sum' = 0, count = 0 \<rparr>
                    | Some a \<Rightarrow> a)
         in if count avg = 0 then Null else Num (Fin (sum' avg / count avg)))
      else orNull (getField (values' v) (as metric)))"

text \<open>
  The assignment \<^verbatim>\<open>output[metric.as] = v\<close> in \<^verbatim>\<open>toReduceSummary\<close>. The flag beside the
  output row says whether an assignment to \<^verbatim>\<open>__proto__\<close> still reaches the setter of the
  first prototype. Under the key \<^verbatim>\<open>__proto__\<close>, with no own property of that name and
  the setter reached, the assignment stores nothing: it cuts the prototype chain when
  \<open>v\<close> is \<^verbatim>\<open>null\<close>, makes \<open>v\<close> the prototype when \<open>v\<close> is an object (after which the
  setter is still reached unless \<open>v\<close> has a property \<^verbatim>\<open>__proto__\<close> of its own), and does
  nothing otherwise. In every other case it replaces the value of a key already there
  and appends a new key.
\<close>

fun keepsSetter :: "jsval \<Rightarrow> bool" where
  "keepsSetter Null = False"
| "keepsSetter (Obj kvs) = (map_of kvs ''__proto__'' = None)"
| "keepsSetter _ = True"

definition assignOutput ::
  "string \<Rightarrow> jsval \<Rightarrow> (string \<times> jsval) list \<times> bool \<Rightarrow> (string \<times> jsval) list \<times> bool"
where
  "assignOutput key v out =
     (if key = ''__proto__'' \<and> map_of (fst out) key = None \<and> snd out
      then (fst out, keepsSetter v)
      else (AList.update key v (fst out), snd out))"

fun outputMetrics ::
  "ReduceGroupState \<Rightarrow> ReduceMetricSpec list \<Rightarrow> (string \<times> jsval) list \<times> bool
     \<Rightarrow> (string \<times> jsval) list \<times> bool"
where
  "outputMetrics v [] out = out"
| "outputMetrics v (metric # rest) out =
     outputMetrics v rest (assignOutput (as metric) (metricOutput v metric) out)"

text \<open>
  The output row of a group: a copy of \<^verbatim>\<open>value.group\<close>, which has the prototype of an
  object literal, and then the metrics.
\<close>

definition outputRow :: "ReduceSpec \<Rightarrow> ReduceGroupState \<Rightarrow> (string \<times> jsval) list" where
  "outputRow spec v = fst (outputMetrics v (metrics spec) (group v, True))"

definition toReduceSummary ::
  "host \<Rightarrow> ReduceSpec \<Rightarrow> (string \<times> ReduceGroupState) list \<Rightarrow> ReduceSummary"
where
  "toReduceSummary h spec state =
     (let sortedEntries = sortEntries h state;
          rs = map (\<lambda>(key, v). outputRow spec v) sortedEntries
      in \<lparr> rows = rs,
           rowsIn = sum_list (map (\<lambda>(key, v). inputCount v) sortedEntries),
           rowsOut = length rs \<rparr>)"

text \<open>\<^verbatim>\<open>reducePartitionRows\<close>: a fresh accumulator with no bound, every row, finalize.\<close>

definition reducePartitionRows ::
  "host \<Rightarrow> ReduceSpec \<Rightarrow> (string \<times> jsval) list list \<Rightarrow> error + ReduceSummary"
where
  "reducePartitionRows h spec partialRows =
     (case consumeAll h spec None [] partialRows of
        (Some e, state) \<Rightarrow> Inl e
      | (None, state) \<Rightarrow> Inr (toReduceSummary h spec state))"

text \<open>What a partial row adds to the input count of its group.\<close>

definition inputCountOf :: "host \<Rightarrow> (string \<times> jsval) list \<Rightarrow> rat" where
  "inputCountOf h row =
     (case numericFrom h (getField row INPUT_COUNT_FIELD) INPUT_COUNT_FIELD of
        Inl e \<Rightarrow> 0 | Inr n \<Rightarrow> n)"

text \<open>The order of the comparator: \<open>a\<close> does not compare above \<open>b\<close>.\<close>

definition notAbove :: "host \<Rightarrow> string \<Rightarrow> string \<Rightarrow> bool" where
  "notAbove h a b = (localeCompare h a b \<le> 0)"

subsection \<open>Inputs of the repository's tests\<close>

definition regionCountSpec :: ReduceSpec where
  "regionCountSpec =
     \<lparr> groupBy = [''region''],
       metrics = [\<lparr> op = OpCount, field = None, as = ''orders'' \<rparr>] \<rparr>"

definition regionRow :: "string \<Rightarrow> rat \<Rightarrow> (string \<times> jsval) list" where
  "regionRow region n =
     [(''_id'', Obj [(''region'', Str region)]), (''orders'', Num (Fin n)),
      (''__input_count'', Num (Fin n))]"

definition minAmountSpec :: ReduceSpec where
  "minAmountSpec =
     \<lparr> groupBy = [],
       metrics = [\<lparr> op = OpMin, field = Some ''amount'', as = ''minAmount'' \<rparr>] \<rparr>"

definition minAmountRow :: "jsval \<Rightarrow> (string \<times> jsval) list" where
  "minAmountRow v = [(''_id'', Null), (''minAmount'', v), (''__input_count'', Num (Fin 1))]"

definition ordersAvgSpec :: ReduceSpec where
  "ordersAvgSpec =
     \<lparr> groupBy = [''region''],
       metrics = [\<lparr> op = OpCount, field = None, as = ''orders'' \<rparr>,
                  \<lparr> op = OpAvg, field = Some ''amount'', as = ''avgAmount'' \<rparr>] \<rparr>"

definition ordersAvgRow :: "string \<Rightarrow> rat \<Rightarrow> rat \<Rightarrow> (string \<times> jsval) list" where
  "ordersAvgRow region n amount =
     [(''_id'', Obj [(''region'', Str region)]), (''orders'', Num (Fin n)),
      (''__avg_sum__avgAmount'', Num (Fin amount)), (''__avg_count__avgAmount'', Num (Fin n)),
      (''__input_count'', Num (Fin n))]"

subsection \<open>Further inputs\<close>

text \<open>
  A maximum per region, with partial rows as the \<^verbatim>\<open>$group\<close> stage of a chunk gives them:
  the maximum of a chunk is \<^verbatim>\<open>null\<close> when no document of the group in that chunk has
  the field.
\<close>

definition maxAmountSpec :: ReduceSpec where
  "maxAmountSpec =
     \<lparr> groupBy = [''region''],
       metrics = [\<lparr> op = OpMax, field = Some ''amount'', as = ''maxAmount'' \<rparr>] \<rparr>"

definition maxAmountRow :: "string \<Rightarrow> jsval \<Rightarrow> (string \<times> jsval) list" where
  "maxAmountRow region v =
     [(''_id'', Obj [(''region'', Str region)]), (''maxAmount'', v),
      (''__input_count'', Num (Fin 1))]"

text \<open>An average whose alias is \<^verbatim>\<open>__proto__\<close>, which the pattern of aliases admits.\<close>

definition protoAvgSpec :: ReduceSpec where
  "protoAvgSpec =
     \<lparr> groupBy = [''region''],
       metrics = [\<lparr> op = OpAvg, field = Some ''amount'', as = ''__proto__'' \<rparr>] \<rparr>"

definition protoAvgRow :: "string \<Rightarrow> rat \<Rightarrow> rat \<Rightarrow> (string \<times> jsval) list" where
  "protoAvgRow region n amount =
     [(''_id'', Obj [(''region'', Str region)]),
      (''__avg_sum____proto__'', Num (Fin amount)), (''__avg_count____proto__'', Num (Fin n)),
      (''__input_count'', Num (Fin n))]"

text \<open>The sum of the input counts of the groups of a state.\<close>

definition totalInput :: "(string \<times> ReduceGroupState) list \<Rightarrow> rat" where
  "totalInput st = sum_list (map (\<lambda>(key, v). inputCount v) st)"

section \<open>Properties of the helpers\<close>

lemmas isoOfMillis_eval =
  isoOfMillis_def isoDate_def isoTime_def yearText_def yearOf_def monthOf_def dayOfMonth_def
  monthIndex_def dayOfYear_def yearOfEra_def padded_def digitChar_def upt_rec

lemmas toHexString_eval = toHexString_def hexDigit_def drop_bit_eq_div

subsection \<open>sanitizeFilters\<close>





lemma update_fresh: "k \<notin> fst ` set out \<Longrightarrow> AList.update k v out = out @ [(k, v)]"
  by (induction out) auto






subsection \<open>normalizeValue\<close>

lemma normalize_portable:
  "normalizeValue h v = Inr w \<Longrightarrow> portable w"
  "normalizeItems h xs = Inr ys \<Longrightarrow> portableItems ys"
  "normalizeEntries h kvs = Inr zs \<Longrightarrow> portableEntries zs"
  by (induction h v and h xs and h kvs arbitrary: w and ys and zs
      rule: normalizeValue_normalizeItems_normalizeEntries.induct)
     (auto split: sum.splits)

lemma portable_fixed:
  "portable v \<Longrightarrow> normalizeValue h v = Inr v"
  "portableItems xs \<Longrightarrow> normalizeItems h xs = Inr xs"
  "portableEntries kvs \<Longrightarrow> normalizeEntries h kvs = Inr kvs"
  by (induction h v and h xs and h kvs
      rule: normalizeValue_normalizeItems_normalizeEntries.induct)
     (auto split: sum.splits)

lemma normalize_returns:
  "datesValid v \<Longrightarrow> \<exists>w. normalizeValue h v = Inr w"
  "datesValidItems xs \<Longrightarrow> \<exists>ys. normalizeItems h xs = Inr ys"
  "datesValidEntries kvs \<Longrightarrow> \<exists>zs. normalizeEntries h kvs = Inr zs"
  by (induction h v and h xs and h kvs
      rule: normalizeValue_normalizeItems_normalizeEntries.induct)
     (auto split: sum.splits)

lemma hexDigit_mem: "hexDigit n \<in> set ''0123456789abcdef''"
  unfolding hexDigit_def by (rule nth_mem) simp

lemma toHexString_length: "length (toHexString x) = 24"
  by (simp add: toHexString_def)

lemma toHexString_chars: "set (toHexString x) \<subseteq> set ''0123456789abcdef''"
  unfolding toHexString_def using hexDigit_mem by (auto simp del: set_simps list.set)

lemma normalize_throws:
  "normalizeValue h v = Inl e \<Longrightarrow> e = RangeError_InvalidTime \<and> \<not> datesValid v"
  "normalizeItems h xs = Inl e \<Longrightarrow> e = RangeError_InvalidTime \<and> \<not> datesValidItems xs"
  "normalizeEntries h kvs = Inl e \<Longrightarrow> e = RangeError_InvalidTime \<and> \<not> datesValidEntries kvs"
  by (induction h v and h xs and h kvs arbitrary: e and e and e
      rule: normalizeValue_normalizeItems_normalizeEntries.induct)
     (auto split: sum.splits)

lemma normalize_valid:
  "normalizeValue h v = Inr w \<Longrightarrow> datesValid v"
  "normalizeItems h xs = Inr ys \<Longrightarrow> datesValidItems xs"
  "normalizeEntries h kvs = Inr zs \<Longrightarrow> datesValidEntries kvs"
  by (induction h v and h xs and h kvs arbitrary: w and ys and zs
      rule: normalizeValue_normalizeItems_normalizeEntries.induct)
     (auto split: sum.splits)

lemma normalize_invalid:
  "\<not> datesValid v \<Longrightarrow> normalizeValue h v = Inl RangeError_InvalidTime"
proof -
  assume inv: "\<not> datesValid v"
  show ?thesis
  proof (cases "normalizeValue h v")
    case (Inl e)
    then show ?thesis using normalize_throws(1)[of h v e] by simp
  next
    case (Inr w)
    then show ?thesis using normalize_valid(1)[of h v w] inv by simp
  qed
qed

lemma normalizeItems_nth:
  "normalizeItems h xs = Inr ys \<Longrightarrow>
   length ys = length xs \<and> (\<forall>i<length xs. normalizeValue h (xs ! i) = Inr (ys ! i))"
proof (induction xs arbitrary: ys)
  case Nil
  then show ?case by simp
next
  case (Cons x xs)
  from Cons.prems obtain y ys' where y: "normalizeValue h x = Inr y"
    and r: "normalizeItems h xs = Inr ys'" and ys: "ys = y # ys'"
    by (auto split: sum.splits)
  from Cons.IH[OF r] have l: "length ys' = length xs"
    and n: "\<forall>i<length xs. normalizeValue h (xs ! i) = Inr (ys' ! i)" by simp_all
  show ?case
  proof (intro conjI allI impI)
    show "length ys = length (x # xs)" using l ys by simp
  next
    fix i assume "i < length (x # xs)"
    then show "normalizeValue h ((x # xs) ! i) = Inr (ys ! i)"
      using y n ys by (cases i) simp_all
  qed
qed

lemma normalizeEntries_nth:
  "normalizeEntries h kvs = Inr zs \<Longrightarrow>
   map fst zs = map fst kvs
   \<and> (\<forall>i<length kvs. normalizeValue h (snd (kvs ! i)) = Inr (snd (zs ! i)))"
proof (induction kvs arbitrary: zs)
  case Nil
  then show ?case by simp
next
  case (Cons p kvs)
  obtain key x where p: "p = (key, x)" by (cases p)
  from Cons.prems p obtain y zs' where y: "normalizeValue h x = Inr y"
    and r: "normalizeEntries h kvs = Inr zs'" and zs: "zs = (key, y) # zs'"
    by (auto split: sum.splits)
  from Cons.IH[OF r] have l: "map fst zs' = map fst kvs"
    and n: "\<forall>i<length kvs. normalizeValue h (snd (kvs ! i)) = Inr (snd (zs' ! i))" by simp_all
  show ?case
  proof (intro conjI allI impI)
    show "map fst zs = map fst (p # kvs)" using l zs p by simp
  next
    fix i assume "i < length (p # kvs)"
    then show "normalizeValue h (snd ((p # kvs) ! i)) = Inr (snd (zs ! i))"
      using y n zs p by (cases i) simp_all
  qed
qed

lemma normalize_example:
  "normalizeValue exampleHost
     (Obj [(''id'', Oid 0x65e5b6f1de74f57fcb0f97a5),
           (''when'', DateV (Some 1706782830000)),
           (''list'', Arr [Oid 0x65e5b6f1de74f57fcb0f97a5, DateV (Some 1706782830000)]),
           (''nested'', Obj [(''value'', Oid 0x65e5b6f1de74f57fcb0f97a5)])])
   = Inr (Obj [(''id'', Str ''65e5b6f1de74f57fcb0f97a5''),
               (''when'', Str ''2024-02-01T10:20:30.000Z''),
               (''list'', Arr [Str ''65e5b6f1de74f57fcb0f97a5'', Str ''2024-02-01T10:20:30.000Z'']),
               (''nested'', Obj [(''value'', Str ''65e5b6f1de74f57fcb0f97a5'')])])"
  by (simp add: exampleHost_def isoOfMillis_eval toHexString_eval)

text \<open>
  C8. \<^verbatim>\<open>normalizeValue\<close> is idempotent: applying it to its own result gives that result
  again, and when the first application throws (an invalid date) so does the
  composition. A value it returns is a fixed point.
\<close>

theorem normalizeValue_idempotent:
  "andThen (normalizeValue h v) (normalizeValue h) = normalizeValue h v
   \<and> (normalizeValue h v = Inr w \<longrightarrow> normalizeValue h w = Inr w)"
  by (auto simp: andThen_def split: sum.splits
           dest: normalize_portable(1) portable_fixed(1))

theorem normalizeValue_idempotent_witness:
  "normalizeValue exampleHost
     (Obj [(''id'', Oid 0x65e5b6f1de74f57fcb0f97a5),
           (''when'', DateV (Some 1706782830000)),
           (''list'', Arr [Oid 0x65e5b6f1de74f57fcb0f97a5, DateV (Some 1706782830000)]),
           (''nested'', Obj [(''value'', Oid 0x65e5b6f1de74f57fcb0f97a5)])])
   = Inr (Obj [(''id'', Str ''65e5b6f1de74f57fcb0f97a5''),
               (''when'', Str ''2024-02-01T10:20:30.000Z''),
               (''list'', Arr [Str ''65e5b6f1de74f57fcb0f97a5'', Str ''2024-02-01T10:20:30.000Z'']),
               (''nested'', Obj [(''value'', Str ''65e5b6f1de74f57fcb0f97a5'')])])
   \<and> normalizeValue exampleHost
        (Obj [(''id'', Str ''65e5b6f1de74f57fcb0f97a5''),
              (''when'', Str ''2024-02-01T10:20:30.000Z''),
              (''list'', Arr [Str ''65e5b6f1de74f57fcb0f97a5'', Str ''2024-02-01T10:20:30.000Z'']),
              (''nested'', Obj [(''value'', Str ''65e5b6f1de74f57fcb0f97a5'')])])
   = Inr (Obj [(''id'', Str ''65e5b6f1de74f57fcb0f97a5''),
               (''when'', Str ''2024-02-01T10:20:30.000Z''),
               (''list'', Arr [Str ''65e5b6f1de74f57fcb0f97a5'', Str ''2024-02-01T10:20:30.000Z'']),
               (''nested'', Obj [(''value'', Str ''65e5b6f1de74f57fcb0f97a5'')])])"
  using normalize_example
    normalizeValue_idempotent
      [of exampleHost
          "Obj [(''id'', Oid 0x65e5b6f1de74f57fcb0f97a5),
                (''when'', DateV (Some 1706782830000)),
                (''list'', Arr [Oid 0x65e5b6f1de74f57fcb0f97a5, DateV (Some 1706782830000)]),
                (''nested'', Obj [(''value'', Oid 0x65e5b6f1de74f57fcb0f97a5)])]"
          "Obj [(''id'', Str ''65e5b6f1de74f57fcb0f97a5''),
                (''when'', Str ''2024-02-01T10:20:30.000Z''),
                (''list'', Arr [Str ''65e5b6f1de74f57fcb0f97a5'', Str ''2024-02-01T10:20:30.000Z'']),
                (''nested'', Obj [(''value'', Str ''65e5b6f1de74f57fcb0f97a5'')])]"]
  by (simp del: normalizeValue.simps)

text \<open>
  C10. Whatever \<^verbatim>\<open>normalizeValue\<close> returns has no identifier and no date at any depth,
  inside arrays and nested mappings included. It returns whenever every date of the
  input is valid, and throws the \<^verbatim>\<open>RangeError\<close> of \<^verbatim>\<open>toISOString\<close> otherwise. An identifier
  becomes its string of 24 hex digits and a valid date the string \<^verbatim>\<open>toISOString\<close> gives.
  The result of an array is an array of the same length whose element at each index is
  the result of the element of the input at that index; the result of a mapping is a
  mapping with the same keys in the same order whose value at each position is the
  result of the value of the input at that position; \<^verbatim>\<open>undefined\<close>, \<^verbatim>\<open>null\<close>, booleans,
  numbers and strings are returned as they are.
\<close>

theorem normalizeValue_portable:
  "(normalizeValue h v = Inr w \<longrightarrow> portable w)
   \<and> (datesValid v \<longrightarrow> (\<exists>r. normalizeValue h v = Inr r \<and> portable r))
   \<and> (\<not> datesValid v \<longrightarrow> normalizeValue h v = Inl RangeError_InvalidTime)
   \<and> normalizeValue h (Oid x) = Inr (Str (toHexString x))
   \<and> length (toHexString x) = 24
   \<and> set (toHexString x) \<subseteq> set ''0123456789abcdef''
   \<and> normalizeValue h (DateV (Some t)) = Inr (Str (toISOString h t))
   \<and> (normalizeValue h (Arr xs) = Inr wa \<longrightarrow>
        (\<exists>ys. wa = Arr ys \<and> length ys = length xs
              \<and> (\<forall>i<length xs. normalizeValue h (xs ! i) = Inr (ys ! i))))
   \<and> (normalizeValue h (Obj kvs) = Inr wo \<longrightarrow>
        (\<exists>zs. wo = Obj zs \<and> map fst zs = map fst kvs
              \<and> (\<forall>i<length kvs. normalizeValue h (snd (kvs ! i)) = Inr (snd (zs ! i)))))
   \<and> normalizeValue h Undefined = Inr Undefined
   \<and> normalizeValue h Null = Inr Null
   \<and> normalizeValue h (Bool b) = Inr (Bool b)
   \<and> normalizeValue h (Num n) = Inr (Num n)
   \<and> normalizeValue h (Str s) = Inr (Str s)"
proof -
  have ret: "datesValid v \<longrightarrow> (\<exists>r. normalizeValue h v = Inr r \<and> portable r)"
    using normalize_returns(1)[of v h] normalize_portable(1)[of h v] by blast
  have inv: "\<not> datesValid v \<longrightarrow> normalizeValue h v = Inl RangeError_InvalidTime"
    using normalize_invalid[of v h] by simp
  have arr: "normalizeValue h (Arr xs) = Inr wa \<longrightarrow>
        (\<exists>ys. wa = Arr ys \<and> length ys = length xs
              \<and> (\<forall>i<length xs. normalizeValue h (xs ! i) = Inr (ys ! i)))"
  proof
    assume a: "normalizeValue h (Arr xs) = Inr wa"
    then obtain ys where ys: "normalizeItems h xs = Inr ys" and wa: "wa = Arr ys"
      by (auto split: sum.splits)
    show "\<exists>ys. wa = Arr ys \<and> length ys = length xs
              \<and> (\<forall>i<length xs. normalizeValue h (xs ! i) = Inr (ys ! i))"
      using normalizeItems_nth[OF ys] wa by blast
  qed
  have obj: "normalizeValue h (Obj kvs) = Inr wo \<longrightarrow>
        (\<exists>zs. wo = Obj zs \<and> map fst zs = map fst kvs
              \<and> (\<forall>i<length kvs. normalizeValue h (snd (kvs ! i)) = Inr (snd (zs ! i))))"
  proof
    assume a: "normalizeValue h (Obj kvs) = Inr wo"
    then obtain zs where zs: "normalizeEntries h kvs = Inr zs" and wo: "wo = Obj zs"
      by (auto split: sum.splits)
    show "\<exists>zs. wo = Obj zs \<and> map fst zs = map fst kvs
              \<and> (\<forall>i<length kvs. normalizeValue h (snd (kvs ! i)) = Inr (snd (zs ! i)))"
      using normalizeEntries_nth[OF zs] wo by blast
  qed
  have por: "normalizeValue h v = Inr w \<longrightarrow> portable w"
    using normalize_portable(1)[of h v w] by simp
  have hex: "length (toHexString x) = 24" "set (toHexString x) \<subseteq> set ''0123456789abcdef''"
    using toHexString_length[of x] toHexString_chars[of x] by simp_all
  show ?thesis
    using por ret inv arr obj hex by simp
qed


theorem normalizeValue_portable_witness:
  "datesValid (Obj [(''id'', Oid 0x65e5b6f1de74f57fcb0f97a5),
                    (''list'', Arr [DateV (Some 1706782830000), Num (Fin 7)])])
   \<and> normalizeValue exampleHost
        (Obj [(''id'', Oid 0x65e5b6f1de74f57fcb0f97a5),
              (''list'', Arr [DateV (Some 1706782830000), Num (Fin 7)])])
      = Inr (Obj [(''id'', Str ''65e5b6f1de74f57fcb0f97a5''),
                  (''list'', Arr [Str ''2024-02-01T10:20:30.000Z'', Num (Fin 7)])])
   \<and> portable (Obj [(''id'', Str ''65e5b6f1de74f57fcb0f97a5''),
                    (''list'', Arr [Str ''2024-02-01T10:20:30.000Z'', Num (Fin 7)])])
   \<and> normalizeValue exampleHost (Arr [DateV (Some 1706782830000), Num (Fin 7)])
      = Inr (Arr [Str ''2024-02-01T10:20:30.000Z'', Num (Fin 7)])
   \<and> \<not> datesValid (Arr [DateV None])
   \<and> normalizeValue exampleHost (Arr [DateV None]) = Inl RangeError_InvalidTime"
proof -
  let ?xs = "[DateV (Some 1706782830000), Num (Fin 7)]"
  let ?ys = "[Str ''2024-02-01T10:20:30.000Z'', Num (Fin 7)]"
  let ?kvs = "[(''id'', Oid 0x65e5b6f1de74f57fcb0f97a5), (''list'', Arr ?xs)]"
  let ?zs = "[(''id'', Str ''65e5b6f1de74f57fcb0f97a5''), (''list'', Arr ?ys)]"
  note T = normalizeValue_portable
    [of exampleHost "Obj ?kvs" "Obj ?zs" "0x65e5b6f1de74f57fcb0f97a5" 1706782830000
        ?xs "Arr ?ys" ?kvs "Obj ?zs" True "Fin 0" "[]"]
  note U = normalizeValue_portable [of exampleHost "Arr [DateV None]"]
  have valid: "datesValid (Obj ?kvs)" by simp
  have invalid: "\<not> datesValid (Arr [DateV None])" by simp
  have date: "normalizeValue exampleHost (DateV (Some 1706782830000))
                = Inr (Str ''2024-02-01T10:20:30.000Z'')"
    by (simp add: exampleHost_def isoOfMillis_eval)
  have oid: "normalizeValue exampleHost (Oid 0x65e5b6f1de74f57fcb0f97a5)
                = Inr (Str ''65e5b6f1de74f57fcb0f97a5'')"
    by (simp add: toHexString_eval upt_rec)
  have arr: "normalizeValue exampleHost (Arr ?xs) = Inr (Arr ?ys)"
    using date by (simp del: normalizeValue.simps(3))
  have obj: "normalizeValue exampleHost (Obj ?kvs) = Inr (Obj ?zs)"
    using oid arr by (simp del: normalizeValue.simps(1,3,4))
  have por: "portable (Obj ?zs)" using T obj by blast
  have thrown: "normalizeValue exampleHost (Arr [DateV None]) = Inl RangeError_InvalidTime"
    using U invalid by blast
  show ?thesis using valid obj por arr invalid thrown by (simp only: simp_thms)
qed

section \<open>Properties of the partitioner\<close>

lemma le_div_iff_int:
  assumes "0 < (c::int)"
  shows "(i \<le> d div c) = (i * c \<le> d)"
proof
  assume "i \<le> d div c"
  then have "i * c \<le> (d div c) * c" using assms by (simp add: mult_right_mono)
  also have "\<dots> \<le> d"
    using assms pos_mod_sign[of c d] div_mult_mod_eq[of d c] by linarith
  finally show "i * c \<le> d" .
next
  assume h: "i * c \<le> d"
  show "i \<le> d div c"
  proof (rule ccontr)
    assume "\<not> i \<le> d div c"
    then have "d div c + 1 \<le> i" by simp
    then have "(d div c + 1) * c \<le> i * c" using assms by (simp add: mult_right_mono)
    moreover have "d < (d div c + 1) * c"
    proof -
      have "d mod c < c" using assms by simp
      moreover have "d = c * (d div c) + d mod c" by simp
      ultimately have "d < c * (d div c) + c" by linarith
      then show ?thesis by (simp add: algebra_simps)
    qed
    ultimately show False using h by simp
  qed
qed

lemma rangesLoop_closed:
  "0 \<le> minN \<Longrightarrow> 0 < chunkSize \<Longrightarrow> minN \<le> maxN \<Longrightarrow> 0 \<le> i \<Longrightarrow>
    rangesLoop minN maxN k chunkSize i acc =
      Inr (acc @ map (rangeAt minN maxN chunkSize)
                   [nat i ..< rangeCount minN maxN k chunkSize])"
proof (induction minN maxN k chunkSize i acc rule: rangesLoop.induct)
  case (1 minN maxN k chunkSize i ranges)
  let ?n = "rangeCount minN maxN k chunkSize"
  let ?q = "(maxN - minN) div chunkSize"
  have q: "\<And>j. (j \<le> ?q) = (j * chunkSize \<le> maxN - minN)"
    using le_div_iff_int[OF "1.prems"(2)] by simp
  show ?case
  proof (cases "i < k")
    case False
    then have "?n \<le> nat i" by (simp add: rangeCount_def)
    with False show ?thesis by (simp add: rangesLoop.simps[of minN maxN k chunkSize i])
  next
    case True
    show ?thesis
    proof (cases "minN + i * chunkSize > maxN")
      case over: True
      then have "\<not> i \<le> ?q" using q[of i] by simp
      then have "?n \<le> nat i" by (simp add: rangeCount_def)
      with True over show ?thesis
        by (simp add: rangesLoop.simps[of minN maxN k chunkSize i])
    next
      case within: False
      then have "i \<le> ?q" using q[of i] by simp
      with True "1.prems"(4) have lt: "nat i < ?n" by (simp add: rangeCount_def)
      have start: "bigIntToObjectId (minN + i * chunkSize) = Inr (word_of_int (minN + i * chunkSize))"
        using "1.prems" by (simp add: bigIntToObjectId_def)
      have nxt: "bigIntToObjectId (minN + i * chunkSize + chunkSize)
                   = Inr (word_of_int (minN + i * chunkSize + chunkSize))"
        using "1.prems" by (simp add: bigIntToObjectId_def)
      have upt: "[nat i ..< ?n] = nat i # [nat (i + 1) ..< ?n]"
        using lt "1.prems"(4) by (simp add: upt_conv_Cons nat_add_distrib)
      have r: "rangeAt minN maxN chunkSize (nat i) =
                 \<lparr> index = i, startInclusive = word_of_int (minN + i * chunkSize),
                   endExclusive = (if minN + i * chunkSize + chunkSize \<le> maxN
                      then Some (word_of_int (minN + i * chunkSize + chunkSize)) else None) \<rparr>"
        using "1.prems"(4) by (simp add: rangeAt_def algebra_simps)
      have IH: "\<And>e. (if minN + i * chunkSize + chunkSize \<le> maxN
                   then (case bigIntToObjectId (minN + i * chunkSize + chunkSize) of
                            Inl e \<Rightarrow> Inl e | Inr n \<Rightarrow> Inr (Some n))
                   else Inr None) = Inr e \<Longrightarrow>
            rangesLoop minN maxN k chunkSize (i + 1)
              (ranges @ [\<lparr> index = i, startInclusive = word_of_int (minN + i * chunkSize), endExclusive = e \<rparr>])
            = Inr ((ranges @ [\<lparr> index = i, startInclusive = word_of_int (minN + i * chunkSize), endExclusive = e \<rparr>])
                   @ map (rangeAt minN maxN chunkSize) [nat (i + 1) ..< ?n])"
        using "1.IH"[OF True refl _ refl start] within "1.prems" by simp
      show ?thesis
        using True within start nxt IH upt r
        by (simp add: rangesLoop.simps[of minN maxN k chunkSize i])
    qed
  qed
qed


lemma ceil_div_bound:
  assumes "0 < (k::int)" "0 < sp"
  shows "0 < (sp + k - 1) div k" "sp \<le> ((sp + k - 1) div k) * k"
proof -
  let ?c = "(sp + k - 1) div k"
  have "1 \<le> ?c" using le_div_iff_int[OF assms(1), of 1 "sp + k - 1"] assms by simp
  then show "0 < ?c" by simp
  have "sp + k - 1 = k * ?c + (sp + k - 1) mod k" by simp
  moreover have "(sp + k - 1) mod k < k" using assms(1) by simp
  ultimately have "sp + k - 1 < k * ?c + k" by linarith
  then show "sp \<le> ?c * k" by (simp add: algebra_simps)
qed

lemma buildObjectIdRanges_closed:
  assumes "minId \<le> maxId"
  shows "buildObjectIdRanges minId maxId requestedChunks = Inr (rangesOf minId maxId requestedChunks)"
    and "0 < chunkSizeOf minId maxId requestedChunks"
    and "(uint maxId - uint minId) div chunkSizeOf minId maxId requestedChunks + 1
           \<le> max 1 requestedChunks"
proof -
  let ?k = "max 1 requestedChunks"
  let ?d = "uint maxId - uint minId"
  let ?c = "chunkSizeOf minId maxId requestedChunks"
  have le: "uint minId \<le> uint maxId" using assms by (simp add: word_le_def)
  have k: "0 < ?k" by simp
  have span: "0 < ?d + 1" using le by simp
  have c: "?c = (?d + 1 + ?k - 1) div ?k" by (simp add: chunkSizeOf_def)
  show cpos: "0 < ?c" using ceil_div_bound(1)[OF k span] c by simp
  have big: "?d + 1 \<le> ?c * ?k" using ceil_div_bound(2)[OF k span] c by simp
  have "\<not> ?k \<le> ?d div ?c"
    using le_div_iff_int[OF cpos, of ?k ?d] big by (simp add: mult.commute)
  then show bound: "?d div ?c + 1 \<le> ?k" by linarith
  show "buildObjectIdRanges minId maxId requestedChunks = Inr (rangesOf minId maxId requestedChunks)"
  proof (cases "?k = 1")
    case True
    then have c1: "?c = ?d + 1" using c by simp
    have "?d div (?d + 1) = 0" using le by simp
    then have "rangesOf minId maxId requestedChunks =
            [\<lparr> index = 0, startInclusive = minId, endExclusive = None \<rparr>]"
      using c1 by (simp add: rangesOf_def rangeAt_def)
    then show ?thesis
      using True le by (simp add: buildObjectIdRanges_def objectIdToBigInt_def)
  next
    case False
    have "min ?k (?d div ?c + 1) = ?d div ?c + 1" using bound by linarith
    then have cnt: "rangeCount (uint minId) (uint maxId) ?k ?c = nat (?d div ?c + 1)"
      by (simp only: rangeCount_def)
    have "rangesLoop (uint minId) (uint maxId) ?k ?c 0 [] =
            Inr (rangesOf minId maxId requestedChunks)"
      using rangesLoop_closed[of "uint minId" ?c "uint maxId" 0 ?k "[]"] cpos le cnt
      by (simp add: rangesOf_def)
    moreover have nlt: "(uint maxId < uint minId) = False" using le by simp
    moreover have k1: "(?k = 1) = False" using False by simp
    ultimately show ?thesis
      by (simp only: buildObjectIdRanges_def objectIdToBigInt_def Let_def chunkSizeOf_def
            if_False)
  qed
qed


lemma filter_eq_upt: "filter (\<lambda>i. i = j) [0..<n] = (if j < n then [j] else [])"
  by (induction n) auto

lemma rangesOf_facts:
  fixes minId maxId :: ObjectId and requestedChunks :: int
  assumes le: "minId \<le> maxId"
  defines "c \<equiv> chunkSizeOf minId maxId requestedChunks"
  defines "n \<equiv> nat ((uint maxId - uint minId) div c + 1)"
  defines "f \<equiv> rangeAt (uint minId) (uint maxId) c"
  shows "rangesOf minId maxId requestedChunks = map f [0..<n]"
    and "0 < n"
    and "int n \<le> max 1 requestedChunks"
    and "\<And>i. i < n \<Longrightarrow> index (f i) = int i"
    and "\<And>i. i < n \<Longrightarrow> uint (startInclusive (f i)) = uint minId + int i * c"
    and "\<And>i. i < n \<Longrightarrow> uint minId + int i * c \<le> uint maxId"
    and "\<And>i. i < n \<Longrightarrow>
           endExclusive (f i) = (if Suc i < n then Some (startInclusive (f (Suc i))) else None)"
    and "0 < c"
proof -
  let ?d = "uint maxId - uint minId"
  have cpos: "0 < c"
    using buildObjectIdRanges_closed(2)[OF le] by (simp add: c_def)
  show "0 < c" by (rule cpos)
  have d0: "0 \<le> ?d" using le by (simp add: word_le_def)
  have q0: "0 \<le> ?d div c" using d0 cpos by (simp add: pos_imp_zdiv_nonneg_iff)
  show "rangesOf minId maxId requestedChunks = map f [0..<n]"
    by (simp add: rangesOf_def f_def n_def c_def)
  show "0 < n" using q0 by (simp add: n_def)
  show "int n \<le> max 1 requestedChunks"
    using buildObjectIdRanges_closed(3)[OF le, of requestedChunks] q0
    by (simp add: n_def c_def)
  have iq: "\<And>i. (i < n) = (int i \<le> ?d div c)"
    using q0 by (auto simp: n_def)
  have within: "\<And>i. (i < n) = (uint minId + int i * c \<le> uint maxId)"
    using iq le_div_iff_int[OF cpos, of _ ?d] by (simp add: algebra_simps)
  show "\<And>i. i < n \<Longrightarrow> index (f i) = int i" by (simp add: f_def rangeAt_def)
  show w: "\<And>i. i < n \<Longrightarrow> uint minId + int i * c \<le> uint maxId" using within by simp
  show st: "\<And>i. i < n \<Longrightarrow> uint (startInclusive (f i)) = uint minId + int i * c"
  proof -
    fix i assume "i < n"
    then have "uint minId + int i * c \<le> uint maxId" by (rule w)
    moreover have "uint maxId < 2 ^ 96" using uint_lt2p[of maxId] by simp
    moreover have "0 \<le> uint minId + int i * c" using cpos by simp
    ultimately have "take_bit 96 (uint minId + int i * c) = uint minId + int i * c"
      by (simp add: take_bit_int_eq_self)
    moreover have "startInclusive (f i) = word_of_int (uint minId + int i * c)"
      by (simp only: f_def rangeAt_def ObjectIdRange.simps)
    moreover have "uint (word_of_int (uint minId + int i * c) :: ObjectId)
                     = take_bit 96 (uint minId + int i * c)"
      by (simp only: uint_word_of_int_eq) simp
    ultimately show "uint (startInclusive (f i)) = uint minId + int i * c"
      by (simp only:)
  qed
  show "\<And>i. i < n \<Longrightarrow>
           endExclusive (f i) = (if Suc i < n then Some (startInclusive (f (Suc i))) else None)"
    using within[of "Suc _"] by (simp add: f_def rangeAt_def algebra_simps)
qed


lemma idMatches_range:
  "idMatches (rangeToIdMatch r) x =
     (startInclusive r \<le> x \<and> (case endExclusive r of None \<Rightarrow> True | Some e \<Rightarrow> x < e))"
  by (simp add: rangeToIdMatch_def split: option.splits)

lemma rangesOf_match:
  fixes minId maxId x :: ObjectId and requestedChunks :: int
  assumes le: "minId \<le> maxId"
  defines "c \<equiv> chunkSizeOf minId maxId requestedChunks"
  defines "n \<equiv> nat ((uint maxId - uint minId) div c + 1)"
  defines "f \<equiv> rangeAt (uint minId) (uint maxId) c"
  assumes i: "i < n"
  shows "idMatches (rangeToIdMatch (f i)) x =
           (int i \<le> (uint x - uint minId) div c
            \<and> (Suc i < n \<longrightarrow> (uint x - uint minId) div c < int i + 1))"
proof -
  note facts = rangesOf_facts[OF le, where requestedChunks = requestedChunks, folded c_def, folded n_def, folded f_def]
  have cpos: "0 < c" by (rule facts(8))
  have s: "uint (startInclusive (f i)) = uint minId + int i * c" by (rule facts(5)[OF i])
  have a: "(startInclusive (f i) \<le> x) = (int i \<le> (uint x - uint minId) div c)"
    using le_div_iff_int[OF cpos, of "int i" "uint x - uint minId"] s
    by (simp add: word_le_def algebra_simps)
  show ?thesis
  proof (cases "Suc i < n")
    case False
    then show ?thesis using a facts(7)[OF i] by (simp add: idMatches_range)
  next
    case True
    have s': "uint (startInclusive (f (Suc i))) = uint minId + (int i + 1) * c"
      using facts(5)[OF True] by simp
    have b: "(x < startInclusive (f (Suc i))) = ((uint x - uint minId) div c < int i + 1)"
      using le_div_iff_int[OF cpos, of "int i + 1" "uint x - uint minId"] s'
      by (auto simp: word_less_alt algebra_simps)
    show ?thesis using True a b facts(7)[OF i] by (simp add: idMatches_range)
  qed
qed

lemma rangesOf_cover:
  fixes minId maxId x :: ObjectId and requestedChunks :: int
  assumes le: "minId \<le> maxId"
  shows "minId \<le> x \<Longrightarrow>
           length (filter (\<lambda>r. idMatches (rangeToIdMatch r) x)
                     (rangesOf minId maxId requestedChunks)) = 1"
    and "x < minId \<Longrightarrow>
           filter (\<lambda>r. idMatches (rangeToIdMatch r) x)
             (rangesOf minId maxId requestedChunks) = []"
proof -
  define c where "c = chunkSizeOf minId maxId requestedChunks"
  define n where "n = nat ((uint maxId - uint minId) div c + 1)"
  define f where "f = rangeAt (uint minId) (uint maxId) c"
  define Q where "Q = (uint x - uint minId) div c"
  note facts = rangesOf_facts[OF le, where requestedChunks = requestedChunks, folded c_def, folded n_def, folded f_def]
  have m: "\<And>i. i < n \<Longrightarrow>
      idMatches (rangeToIdMatch (f i)) x = (int i \<le> Q \<and> (Suc i < n \<longrightarrow> Q < int i + 1))"
    using rangesOf_match[OF le, where requestedChunks = requestedChunks and x = x]
    by (simp add: c_def n_def f_def Q_def)
  have rs: "rangesOf minId maxId requestedChunks = map f [0..<n]" by (rule facts(1))
  have cpos: "0 < c" by (rule facts(8))
  have npos: "0 < n" by (rule facts(2))
  {
    assume "minId \<le> x"
    then have "0 \<le> uint x - uint minId" by (simp add: word_le_def)
    then have Q0: "0 \<le> Q" using cpos by (simp add: Q_def pos_imp_zdiv_nonneg_iff)
    define j where "j = min (n - 1) (nat Q)"
    have jn: "j < n" using npos by (simp add: j_def)
    have "\<And>i. i \<in> set [0..<n] \<Longrightarrow> idMatches (rangeToIdMatch (f i)) x = (i = j)"
    proof -
      fix i assume "i \<in> set [0..<n]"
      then have i: "i < n" by simp
      show "idMatches (rangeToIdMatch (f i)) x = (i = j)"
        unfolding m[OF i] j_def using i Q0 npos by arith
    qed
    then have "filter (\<lambda>i. idMatches (rangeToIdMatch (f i)) x) [0..<n]
                 = filter (\<lambda>i. i = j) [0..<n]"
      by (rule filter_cong[OF refl])
    then show "length (filter (\<lambda>r. idMatches (rangeToIdMatch r) x)
                     (rangesOf minId maxId requestedChunks)) = 1"
      using jn by (simp add: rs filter_map comp_def filter_eq_upt)
  }
  {
    assume "x < minId"
    then have "uint x - uint minId < 0" by (simp add: word_less_alt)
    then have "Q < 0"
      using le_div_iff_int[OF cpos, of 0 "uint x - uint minId"] by (simp add: Q_def)
    then have "\<And>i. i \<in> set [0..<n] \<Longrightarrow> \<not> idMatches (rangeToIdMatch (f i)) x"
      using m by auto
    then show "filter (\<lambda>r. idMatches (rangeToIdMatch r) x)
             (rangesOf minId maxId requestedChunks) = []"
      by (simp add: rs filter_map comp_def)
  }
qed


lemmas buildObjectIdRanges_eval =
  buildObjectIdRanges_def objectIdToBigInt_def bigIntToObjectId_def rangesLoop.simps

text \<open>
  C2. When \<open>maxId < minId\<close> the result is empty; with one chunk it is the one open-ended
  range at \<open>minId\<close>. For every \<open>minId \<le> maxId\<close> and every chunk count the call returns
  a list of ranges that is not empty, starts at \<open>minId\<close>, ends open-ended, and chains:
  the exclusive end of each range is the inclusive start of the next, which is
  strictly larger. The ranges are numbered from 0 and none starts above \<open>maxId\<close>. Every
  identifier from \<open>minId\<close> upwards (so all of \<open>[minId, maxId]\<close>) satisfies the predicate
  of exactly one range, and an identifier below \<open>minId\<close> that of none.
\<close>

theorem buildObjectIdRanges_covers:
  fixes minId maxId :: ObjectId and k :: int
  shows
  "(maxId < minId \<longrightarrow> buildObjectIdRanges minId maxId k = Inr [])
   \<and> (minId \<le> maxId \<and> k = 1 \<longrightarrow>
        buildObjectIdRanges minId maxId k
          = Inr [\<lparr> index = 0, startInclusive = minId, endExclusive = None \<rparr>])
   \<and> (minId \<le> maxId \<longrightarrow>
        (\<exists>rs. buildObjectIdRanges minId maxId k = Inr rs \<and> rs \<noteq> []
           \<and> startInclusive (hd rs) = minId
           \<and> endExclusive (last rs) = None
           \<and> (\<forall>i. Suc i < length rs \<longrightarrow>
                  endExclusive (rs ! i) = Some (startInclusive (rs ! Suc i))
                  \<and> startInclusive (rs ! i) < startInclusive (rs ! Suc i))
           \<and> (\<forall>i. i < length rs \<longrightarrow>
                  index (rs ! i) = int i \<and> startInclusive (rs ! i) \<le> maxId)
           \<and> (\<forall>x. minId \<le> x \<longrightarrow>
                  length (filter (\<lambda>r. idMatches (rangeToIdMatch r) x) rs) = 1)
           \<and> (\<forall>x. x < minId \<longrightarrow>
                  filter (\<lambda>r. idMatches (rangeToIdMatch r) x) rs = [])))"
proof (intro conjI impI)
  assume "maxId < minId"
  then show "buildObjectIdRanges minId maxId k = Inr []"
    by (simp add: buildObjectIdRanges_def objectIdToBigInt_def word_less_alt)
next
  assume "minId \<le> maxId \<and> k = 1"
  then show "buildObjectIdRanges minId maxId k
          = Inr [\<lparr> index = 0, startInclusive = minId, endExclusive = None \<rparr>]"
    by (simp add: buildObjectIdRanges_def objectIdToBigInt_def word_le_def)
next
  assume le: "minId \<le> maxId"
  define c where "c = chunkSizeOf minId maxId k"
  define n where "n = nat ((uint maxId - uint minId) div c + 1)"
  define f where "f = rangeAt (uint minId) (uint maxId) c"
  define rs where "rs = rangesOf minId maxId k"
  note facts = rangesOf_facts[OF le, where requestedChunks = k,
      folded c_def, folded n_def, folded f_def, folded rs_def]
  have rs: "rs = map f [0..<n]" by (rule facts(1))
  have npos: "0 < n" by (rule facts(2))
  have cpos: "0 < c" by (rule facts(8))
  have len: "length rs = n" by (simp add: rs)
  have nth: "\<And>i. i < n \<Longrightarrow> rs ! i = f i" by (simp add: rs)
  have "buildObjectIdRanges minId maxId k = Inr rs"
    using buildObjectIdRanges_closed(1)[OF le] by (simp add: rs_def)
  moreover have "rs \<noteq> []" using npos by (simp add: rs)
  moreover have "startInclusive (hd rs) = minId"
  proof -
    have "hd rs = f 0" using npos by (simp add: rs hd_map upt_conv_Cons)
    moreover have "uint (startInclusive (f 0)) = uint minId" using facts(5)[OF npos] by simp
    ultimately show ?thesis by (simp add: word_uint_eq_iff)
  qed
  moreover have "endExclusive (last rs) = None"
  proof -
    have "last rs = f (n - 1)" using npos by (simp add: rs last_map)
    then show ?thesis using facts(7)[of "n - 1"] npos by simp
  qed
  moreover have "\<forall>i. Suc i < length rs \<longrightarrow>
                  endExclusive (rs ! i) = Some (startInclusive (rs ! Suc i))
                  \<and> startInclusive (rs ! i) < startInclusive (rs ! Suc i)"
  proof (intro allI impI)
    fix i assume "Suc i < length rs"
    then have si: "Suc i < n" and i: "i < n" by (simp_all add: len)
    have "uint (startInclusive (f i)) < uint (startInclusive (f (Suc i)))"
      using facts(5)[OF i] facts(5)[OF si] cpos by (simp add: algebra_simps)
    then show "endExclusive (rs ! i) = Some (startInclusive (rs ! Suc i))
                  \<and> startInclusive (rs ! i) < startInclusive (rs ! Suc i)"
      using facts(7)[OF i] si i by (simp add: nth word_less_alt)
  qed
  moreover have "\<forall>i. i < length rs \<longrightarrow>
                  index (rs ! i) = int i \<and> startInclusive (rs ! i) \<le> maxId"
    using facts(4) facts(5) facts(6) by (simp add: len nth word_le_def)
  moreover have "\<forall>x. minId \<le> x \<longrightarrow>
                  length (filter (\<lambda>r. idMatches (rangeToIdMatch r) x) rs) = 1"
    using rangesOf_cover(1)[OF le] by (simp add: rs_def)
  moreover have "\<forall>x. x < minId \<longrightarrow>
                  filter (\<lambda>r. idMatches (rangeToIdMatch r) x) rs = []"
    using rangesOf_cover(2)[OF le] by (simp add: rs_def)
  ultimately show "\<exists>rs. buildObjectIdRanges minId maxId k = Inr rs \<and> rs \<noteq> []
           \<and> startInclusive (hd rs) = minId
           \<and> endExclusive (last rs) = None
           \<and> (\<forall>i. Suc i < length rs \<longrightarrow>
                  endExclusive (rs ! i) = Some (startInclusive (rs ! Suc i))
                  \<and> startInclusive (rs ! i) < startInclusive (rs ! Suc i))
           \<and> (\<forall>i. i < length rs \<longrightarrow>
                  index (rs ! i) = int i \<and> startInclusive (rs ! i) \<le> maxId)
           \<and> (\<forall>x. minId \<le> x \<longrightarrow>
                  length (filter (\<lambda>r. idMatches (rangeToIdMatch r) x) rs) = 1)
           \<and> (\<forall>x. x < minId \<longrightarrow>
                  filter (\<lambda>r. idMatches (rangeToIdMatch r) x) rs = [])"
    by blast
qed

theorem buildObjectIdRanges_covers_witness:
  "(0x000000000000000000000100 :: ObjectId) \<le> 0x0000000000000000000005ff
   \<and> buildObjectIdRanges 0x000000000000000000000100 0x0000000000000000000005ff 8 =
      Inr [\<lparr>index = 0, startInclusive = 0x100, endExclusive = Some 0x1a0\<rparr>,
           \<lparr>index = 1, startInclusive = 0x1a0, endExclusive = Some 0x240\<rparr>,
           \<lparr>index = 2, startInclusive = 0x240, endExclusive = Some 0x2e0\<rparr>,
           \<lparr>index = 3, startInclusive = 0x2e0, endExclusive = Some 0x380\<rparr>,
           \<lparr>index = 4, startInclusive = 0x380, endExclusive = Some 0x420\<rparr>,
           \<lparr>index = 5, startInclusive = 0x420, endExclusive = Some 0x4c0\<rparr>,
           \<lparr>index = 6, startInclusive = 0x4c0, endExclusive = Some 0x560\<rparr>,
           \<lparr>index = 7, startInclusive = 0x560, endExclusive = None\<rparr>]
   \<and> (0x000000000000000000000001 :: ObjectId) < 0xffffffffffffffffffffffff
   \<and> buildObjectIdRanges 0xffffffffffffffffffffffff 0x000000000000000000000001 4 = Inr []
   \<and> buildObjectIdRanges 0x000000000000000000000010 0x0000000000000000000000ff 1
        = Inr [\<lparr>index = 0, startInclusive = 0x10, endExclusive = None\<rparr>]"
  using buildObjectIdRanges_covers[of "0x5ff" "0x100" 8]
    buildObjectIdRanges_covers[of "0x1" "0xffffffffffffffffffffffff" 4]
    buildObjectIdRanges_covers[of "0x10" "0xff" 1]
  by (simp add: buildObjectIdRanges_eval)

text \<open>
  C1, as the source has it. No cap on the chunk count exists in the source. For a
  dataset with \<open>minId \<le> maxId\<close>, with \<open>k\<close> the larger of 1 and the requested count (that
  of the partition spec if it has one, else the configured default), \<open>span\<close> the number
  of identifiers from \<open>minId\<close> to \<open>maxId\<close> and \<open>chunkSize\<close> the quotient of \<open>span\<close> by \<open>k\<close>
  rounded up, the number of ranges, reported as \<^verbatim>\<open>chunks\<close>, is the quotient of \<open>span\<close> by
  \<open>chunkSize\<close> rounded up. It is at least 1 and at most \<open>k\<close>.
\<close>

theorem reportedChunks_count:
  fixes minId maxId :: ObjectId
  assumes "minId \<le> maxId"
    and "requestedChunks =
           (case partitionSpec of
              None \<Rightarrow> partitionDefaultChunks
            | Some ps \<Rightarrow> (case chunks ps of None \<Rightarrow> partitionDefaultChunks | Some c \<Rightarrow> c))"
    and "k = max 1 requestedChunks"
    and "sp = uint maxId - uint minId + 1"
    and "chunkSize = (sp + k - 1) div k"
  shows "\<exists>rs. partitionRanges (Oid minId) (Oid maxId) partitionSpec partitionDefaultChunks = Inr rs
           \<and> reportedChunks (Some (Oid minId)) (Some (Oid maxId)) partitionSpec
                 partitionDefaultChunks = Inr (length rs)
           \<and> int (length rs) = (sp - 1) div chunkSize + 1
           \<and> 1 \<le> length rs
           \<and> int (length rs) \<le> k"
proof -
  have c: "chunkSize = chunkSizeOf minId maxId requestedChunks"
    using assms by (simp add: chunkSizeOf_def)
  note facts = rangesOf_facts[OF assms(1), where requestedChunks = requestedChunks]
  have cpos: "0 < chunkSize" using facts(8) c by simp
  have "0 \<le> uint maxId - uint minId" using assms(1) by (simp add: word_le_def)
  then have q0: "0 \<le> (uint maxId - uint minId) div chunkSize"
    using cpos by (simp add: pos_imp_zdiv_nonneg_iff)
  have pr: "partitionRanges (Oid minId) (Oid maxId) partitionSpec partitionDefaultChunks
          = Inr (rangesOf minId maxId requestedChunks)"
    using buildObjectIdRanges_closed(1)[OF assms(1), of requestedChunks] assms(2)
    by (simp add: partitionRanges_def split: option.splits)
  have len: "int (length (rangesOf minId maxId requestedChunks)) = (sp - 1) div chunkSize + 1"
    using facts(1) q0 c assms(4) by simp
  have "1 \<le> length (rangesOf minId maxId requestedChunks)"
    using facts(1) facts(2) by simp
  moreover have "int (length (rangesOf minId maxId requestedChunks)) \<le> k"
    using facts(1) facts(3) assms(3) by simp
  ultimately show ?thesis
    using pr len by (simp add: reportedChunks_def)
qed

theorem reportedChunks_count_witness:
  "(0 :: ObjectId) \<le> 4
   \<and> partitionRanges (Oid 0) (Oid 4) (Some \<lparr> chunks = Some 4 \<rparr>) 32
       = Inr [\<lparr>index = 0, startInclusive = 0, endExclusive = Some 2\<rparr>,
              \<lparr>index = 1, startInclusive = 2, endExclusive = Some 4\<rparr>,
              \<lparr>index = 2, startInclusive = 4, endExclusive = None\<rparr>]
   \<and> reportedChunks (Some (Oid 0)) (Some (Oid 4)) (Some \<lparr> chunks = Some 4 \<rparr>) 32 = Inr 3
   \<and> (3 :: int) = (5 - 1) div ((5 + 4 - 1) div 4) + 1"
  using reportedChunks_count
    [where minId = 0 and maxId = 4 and requestedChunks = 4
       and partitionSpec = "Some \<lparr> chunks = Some 4 \<rparr>" and partitionDefaultChunks = 32
       and k = 4 and sp = 5 and chunkSize = 2]
  by (simp add: reportedChunks_def partitionRanges_def buildObjectIdRanges_eval)

text \<open>
  C1 as worded fails: over the identifiers 0 to 4, four requested chunks give three
  ranges and five requested chunks give five, and no cap makes both the smaller of
  the request and the cap.
\<close>

theorem reportedChunks_cap_counterexample:
  "reportedChunks (Some (Oid 0)) (Some (Oid 4)) (Some \<lparr> chunks = Some 4 \<rparr>) 32 = Inr 3
   \<and> reportedChunks (Some (Oid 0)) (Some (Oid 4)) (Some \<lparr> chunks = Some 5 \<rparr>) 32 = Inr 5
   \<and> \<not> (\<exists>cap. 3 = specChunkCount 4 cap \<and> 5 = specChunkCount 5 cap)"
proof -
  have "\<not> (\<exists>cap. 3 = specChunkCount 4 cap \<and> 5 = specChunkCount 5 cap)"
    unfolding specChunkCount_def by arith
  then show ?thesis
    by (simp add: reportedChunks_def partitionRanges_def buildObjectIdRanges_eval)
qed

section \<open>Properties of writeSnapshot\<close>

lemma cumulative_Suc:
  "k < length rws \<Longrightarrow>
   cumulativeBytes h rws (Suc k) = cumulativeBytes h rws k + int (length (snapshotLine h (rws ! k)))"
  by (simp add: cumulativeBytes_def take_Suc_conv_app_nth)

lemma writeRows_ok:
  "\<forall>k. 1 \<le> k \<and> k \<le> length rws \<longrightarrow> wBytes st + cumulativeBytes h rws k \<le> maxBytes \<Longrightarrow>
   writeRows h rws maxBytes st =
     (None, \<lparr> wRowCount = wRowCount st + length rws,
              wBytes = wBytes st + cumulativeBytes h rws (length rws),
              wContent = wContent st @ concat (map (snapshotLine h) rws) \<rparr>)"
proof (induction rws arbitrary: st)
  case Nil
  then show ?case by (simp add: cumulativeBytes_def)
next
  case (Cons row rws)
  let ?l = "snapshotLine h row"
  let ?st = "st\<lparr> wBytes := wBytes st + int (length ?l), wContent := wContent st @ ?l, wRowCount := wRowCount st + 1 \<rparr>"
  have first: "wBytes st + int (length ?l) \<le> maxBytes"
    using Cons.prems[rule_format, of 1] by (simp add: cumulativeBytes_def)
  have rest: "\<forall>k. 1 \<le> k \<and> k \<le> length rws \<longrightarrow> wBytes ?st + cumulativeBytes h rws k \<le> maxBytes"
  proof (intro allI impI)
    fix k assume "1 \<le> k \<and> k \<le> length rws"
    then show "wBytes ?st + cumulativeBytes h rws k \<le> maxBytes"
      using Cons.prems[rule_format, of "Suc k"] by (simp add: cumulativeBytes_def)
  qed
  show ?case
    using first Cons.IH[OF rest] by (simp add: Let_def cumulativeBytes_def)
qed

lemma writeRows_fail:
  "n < length rws \<Longrightarrow>
   \<forall>k. 1 \<le> k \<and> k \<le> n \<longrightarrow> wBytes st + cumulativeBytes h rws k \<le> maxBytes \<Longrightarrow>
   maxBytes < wBytes st + cumulativeBytes h rws (Suc n) \<Longrightarrow>
   writeRows h rws maxBytes st =
     (Some (SnapshotSizeExceeded maxBytes),
      \<lparr> wRowCount = wRowCount st + n,
        wBytes = wBytes st + cumulativeBytes h rws (Suc n),
        wContent = wContent st @ concat (map (snapshotLine h) (take n rws)) \<rparr>)"
proof (induction rws arbitrary: st n)
  case Nil
  then show ?case by simp
next
  case (Cons row rws)
  let ?l = "snapshotLine h row"
  let ?st = "st\<lparr> wBytes := wBytes st + int (length ?l), wContent := wContent st @ ?l, wRowCount := wRowCount st + 1 \<rparr>"
  show ?case
  proof (cases n)
    case 0
    then show ?thesis using Cons.prems by (simp add: Let_def cumulativeBytes_def)
  next
    case (Suc m)
    have first: "wBytes st + int (length ?l) \<le> maxBytes"
      using Cons.prems(2)[rule_format, of 1] Suc by (simp add: cumulativeBytes_def)
    have m: "m < length rws" using Cons.prems(1) Suc by simp
    have rest: "\<forall>k. 1 \<le> k \<and> k \<le> m \<longrightarrow> wBytes ?st + cumulativeBytes h rws k \<le> maxBytes"
    proof (intro allI impI)
      fix k assume "1 \<le> k \<and> k \<le> m"
      then show "wBytes ?st + cumulativeBytes h rws k \<le> maxBytes"
        using Cons.prems(2)[rule_format, of "Suc k"] Suc by (simp add: cumulativeBytes_def)
    qed
    have over: "maxBytes < wBytes ?st + cumulativeBytes h rws (Suc m)"
      using Cons.prems(3) Suc by (simp add: cumulativeBytes_def)
    show ?thesis
      using first Cons.IH[OF m rest over] Suc by (simp add: Let_def cumulativeBytes_def)
  qed
qed


lemma cumulative_mono: "k \<le> k' \<Longrightarrow> cumulativeBytes h rws k \<le> cumulativeBytes h rws k'"
proof -
  assume "k \<le> k'"
  then have "take k' rws = take k rws @ take (k' - k) (drop k rws)"
    by (metis le_add_diff_inverse take_add)
  then show ?thesis by (simp add: cumulativeBytes_def)
qed

lemma first_over:
  assumes "rws \<noteq> []" "maxBytes < cumulativeBytes h rws (length rws)"
  shows "\<exists>n. n < length rws \<and> (n = 0 \<or> cumulativeBytes h rws n \<le> maxBytes)
             \<and> maxBytes < cumulativeBytes h rws (Suc n)"
proof -
  define P where "P k = (1 \<le> k \<and> maxBytes < cumulativeBytes h rws k)" for k
  have ex: "P (length rws)" using assms by (cases rws) (simp_all add: P_def)
  define k0 where "k0 = (LEAST k. P k)"
  have Pk: "P k0" unfolding k0_def using ex by (rule LeastI)
  have k0le: "k0 \<le> length rws" unfolding k0_def using ex by (rule Least_le)
  have least: "\<And>j. j < k0 \<Longrightarrow> \<not> P j" unfolding k0_def by (rule not_less_Least)
  obtain n where n: "k0 = Suc n" using Pk by (cases k0) (simp_all add: P_def)
  have "n = 0 \<or> cumulativeBytes h rws n \<le> maxBytes"
    using least[of n] n by (auto simp: P_def)
  moreover have "n < length rws" using k0le n by simp
  moreover have "maxBytes < cumulativeBytes h rws (Suc n)" using Pk n by (simp add: P_def)
  ultimately show ?thesis by blast
qed

lemma writeSnapshot_success:
  assumes "rws = [] \<or> cumulativeBytes h rws (length rws) \<le> maxBytes"
  shows "writeSnapshot h files rws tmpDir fileName maxBytes =
           (Inr \<lparr> path = path_join h tmpDir fileName, rowCount = length rws,
                  bytes = cumulativeBytes h rws (length rws) \<rparr>,
            files(path_join h tmpDir fileName \<mapsto> concat (map (snapshotLine h) rws)))"
proof -
  have "\<forall>k. 1 \<le> k \<and> k \<le> length rws \<longrightarrow>
          wBytes initialWriter + cumulativeBytes h rws k \<le> maxBytes"
    using assms cumulative_mono[of _ "length rws" h rws]
    by (auto simp: initialWriter_def intro: order_trans)
  from writeRows_ok[OF this] show ?thesis
    by (simp add: writeSnapshot_def initialWriter_def Let_def)
qed

lemma writeSnapshot_failure:
  assumes "n < length rws" "n = 0 \<or> cumulativeBytes h rws n \<le> maxBytes"
    "maxBytes < cumulativeBytes h rws (Suc n)"
  shows "writeSnapshot h files rws tmpDir fileName maxBytes =
           (Inl (SnapshotSizeExceeded maxBytes), files(path_join h tmpDir fileName := None))"
    and "writeRows h rws maxBytes \<lparr> wRowCount = 0, wBytes = 0, wContent = [] \<rparr> =
           (Some (SnapshotSizeExceeded maxBytes),
            \<lparr> wRowCount = n, wBytes = cumulativeBytes h rws (Suc n),
              wContent = concat (map (snapshotLine h) (take n rws)) \<rparr>)"
proof -
  have "\<forall>k. 1 \<le> k \<and> k \<le> n \<longrightarrow>
          wBytes initialWriter + cumulativeBytes h rws k \<le> maxBytes"
    using assms(2) cumulative_mono[of _ n h rws]
    by (auto simp: initialWriter_def intro: order_trans)
  from writeRows_fail[OF assms(1) this] assms(3)
  show w: "writeRows h rws maxBytes \<lparr> wRowCount = 0, wBytes = 0, wContent = [] \<rparr> =
           (Some (SnapshotSizeExceeded maxBytes),
            \<lparr> wRowCount = n, wBytes = cumulativeBytes h rws (Suc n),
              wContent = concat (map (snapshotLine h) (take n rws)) \<rparr>)"
    by (simp add: initialWriter_def)
  show "writeSnapshot h files rws tmpDir fileName maxBytes =
           (Inl (SnapshotSizeExceeded maxBytes), files(path_join h tmpDir fileName := None))"
    by (simp add: writeSnapshot_def w Let_def)
qed

text \<open>
  C3. Every line is the serialized row followed by a line feed. If the rows are none, or
  all their lines together are within \<open>maxBytes\<close>, \<^verbatim>\<open>writeSnapshot\<close> returns the path, the
  number of rows and the total of bytes, and the file holds every line. If \<open>n\<close> lines fit
  and line \<open>n + 1\<close> takes the total above \<open>maxBytes\<close>, the loop throws at that row, having
  written the first \<open>n\<close> lines only, the file is removed, and the error propagates. The
  call fails exactly when there are rows whose lines together exceed \<open>maxBytes\<close>.
\<close>

theorem writeSnapshot_limit:
  "(rws = [] \<or> cumulativeBytes h rws (length rws) \<le> maxBytes \<longrightarrow>
      writeSnapshot h files rws tmpDir fileName maxBytes =
        (Inr \<lparr> path = path_join h tmpDir fileName, rowCount = length rws,
               bytes = cumulativeBytes h rws (length rws) \<rparr>,
         files(path_join h tmpDir fileName \<mapsto> concat (map (snapshotLine h) rws))))
   \<and> (n < length rws \<and> (n = 0 \<or> cumulativeBytes h rws n \<le> maxBytes)
        \<and> maxBytes < cumulativeBytes h rws (Suc n) \<longrightarrow>
      writeSnapshot h files rws tmpDir fileName maxBytes =
        (Inl (SnapshotSizeExceeded maxBytes), files(path_join h tmpDir fileName := None))
      \<and> writeRows h rws maxBytes \<lparr> wRowCount = 0, wBytes = 0, wContent = [] \<rparr> =
           (Some (SnapshotSizeExceeded maxBytes),
            \<lparr> wRowCount = n, wBytes = cumulativeBytes h rws (Suc n),
              wContent = concat (map (snapshotLine h) (take n rws)) \<rparr>))
   \<and> ((\<exists>e. fst (writeSnapshot h files rws tmpDir fileName maxBytes) = Inl e)
        = (rws \<noteq> [] \<and> maxBytes < cumulativeBytes h rws (length rws)))"
proof (intro conjI impI)
  assume "rws = [] \<or> cumulativeBytes h rws (length rws) \<le> maxBytes"
  then show "writeSnapshot h files rws tmpDir fileName maxBytes =
        (Inr \<lparr> path = path_join h tmpDir fileName, rowCount = length rws,
               bytes = cumulativeBytes h rws (length rws) \<rparr>,
         files(path_join h tmpDir fileName \<mapsto> concat (map (snapshotLine h) rws)))"
    by (rule writeSnapshot_success)
next
  assume a: "n < length rws \<and> (n = 0 \<or> cumulativeBytes h rws n \<le> maxBytes)
        \<and> maxBytes < cumulativeBytes h rws (Suc n)"
  then show "writeSnapshot h files rws tmpDir fileName maxBytes =
        (Inl (SnapshotSizeExceeded maxBytes), files(path_join h tmpDir fileName := None))"
    using writeSnapshot_failure(1)[of n rws h maxBytes] by simp
  from a show "writeRows h rws maxBytes \<lparr> wRowCount = 0, wBytes = 0, wContent = [] \<rparr> =
           (Some (SnapshotSizeExceeded maxBytes),
            \<lparr> wRowCount = n, wBytes = cumulativeBytes h rws (Suc n),
              wContent = concat (map (snapshotLine h) (take n rws)) \<rparr>)"
    using writeSnapshot_failure(2)[of n rws h maxBytes] by simp
next
  show "(\<exists>e. fst (writeSnapshot h files rws tmpDir fileName maxBytes) = Inl e)
        = (rws \<noteq> [] \<and> maxBytes < cumulativeBytes h rws (length rws))"
  proof (cases "rws \<noteq> [] \<and> maxBytes < cumulativeBytes h rws (length rws)")
    case True
    then obtain m where "m < length rws" "m = 0 \<or> cumulativeBytes h rws m \<le> maxBytes"
      "maxBytes < cumulativeBytes h rws (Suc m)"
      using first_over[of rws maxBytes h] by blast
    from writeSnapshot_failure(1)[OF this] True show ?thesis by simp
  next
    case False
    then have "rws = [] \<or> cumulativeBytes h rws (length rws) \<le> maxBytes" by auto
    from writeSnapshot_success[OF this] False show ?thesis by simp
  qed
qed

theorem writeSnapshot_limit_witness:
  "cumulativeBytes exampleHost [Obj [(''id'', Num (Fin 1))], Obj [(''id'', Num (Fin 2))]] 2 \<le> 1048576
   \<and> fst (writeSnapshot exampleHost Map.empty
             [Obj [(''id'', Num (Fin 1))], Obj [(''id'', Num (Fin 2))]]
             ''tmp'' ''snapshot.ndjson'' 1048576)
       = Inr \<lparr> path = ''tmp/snapshot.ndjson'', rowCount = 2, bytes = 18 \<rparr>
   \<and> snd (writeSnapshot exampleHost Map.empty
             [Obj [(''id'', Num (Fin 1))], Obj [(''id'', Num (Fin 2))]]
             ''tmp'' ''snapshot.ndjson'' 1048576) ''tmp/snapshot.ndjson''
       = Some (snapshotLine exampleHost (Obj [(''id'', Num (Fin 1))])
                 @ snapshotLine exampleHost (Obj [(''id'', Num (Fin 2))]))
   \<and> 10 < cumulativeBytes exampleHost
              [Obj [(''line'', Str ''1234567890'')], Obj [(''line'', Str ''x'')]] (Suc 0)
   \<and> fst (writeSnapshot exampleHost [''tmp/snapshot.ndjson'' \<mapsto> ''stale'']
             [Obj [(''line'', Str ''1234567890'')], Obj [(''line'', Str ''x'')]]
             ''tmp'' ''snapshot.ndjson'' 10)
       = Inl (SnapshotSizeExceeded 10)
   \<and> snd (writeSnapshot exampleHost [''tmp/snapshot.ndjson'' \<mapsto> ''stale'']
             [Obj [(''line'', Str ''1234567890'')], Obj [(''line'', Str ''x'')]]
             ''tmp'' ''snapshot.ndjson'' 10) ''tmp/snapshot.ndjson''
       = None"
  using writeSnapshot_limit
      [where rws = "[Obj [(''id'', Num (Fin 1))], Obj [(''id'', Num (Fin 2))]]"
         and h = exampleHost and maxBytes = 1048576 and files = Map.empty
         and tmpDir = "''tmp''" and fileName = "''snapshot.ndjson''" and n = 0]
    writeSnapshot_limit
      [where rws = "[Obj [(''line'', Str ''1234567890'')], Obj [(''line'', Str ''x'')]]"
         and h = exampleHost and maxBytes = 10
         and files = "[''tmp/snapshot.ndjson'' \<mapsto> ''stale'']"
         and tmpDir = "''tmp''" and fileName = "''snapshot.ndjson''" and n = 0]
  by (simp add: cumulativeBytes_def snapshotLine_def exampleHost_def numberToString_def
        decimal.simps digitChar_def)

section \<open>Properties of createPdfStream\<close>

lemma isPrefixCI_append: "isPrefixCI pat (pat @ r)"
  by (induction pat) simp_all

lemma containsCI_of_prefix: "isPrefixCI pat s \<Longrightarrow> containsCI pat s"
  by (cases s) simp_all

lemma containsCI_prefix: "containsCI pat (pat @ r)"
  by (rule containsCI_of_prefix) (rule isPrefixCI_append)

lemma pdfRows_all:
  "(case pdfMaxRows of None \<Rightarrow> True | Some m \<Rightarrow> i + int (length rws) \<le> m) \<Longrightarrow>
   pdfRows h pdfMaxRows rws i doc = (None, doc @ pdfLines h i rws)"
proof (induction rws arbitrary: i doc)
  case Nil
  then show ?case by simp
next
  case (Cons row rws)
  have step: "(case pdfMaxRows of None \<Rightarrow> True | Some m \<Rightarrow> (i + 1) + int (length rws) \<le> m)"
    using Cons.prems by (simp split: option.splits)
  show ?case
    using Cons.prems Cons.IH[OF step, of "doc @ [pdfLine h (i + 1) row]"]
    by (simp add: Let_def split: option.splits)
qed

lemma pdfRows_over:
  "i \<le> m \<Longrightarrow> m < i + int (length rws) \<Longrightarrow>
   pdfRows h (Some m) rws i doc =
     (Some (PdfRowLimitExceeded m), doc @ pdfLines h i (take (nat (m - i)) rws))"
proof (induction rws arbitrary: i doc)
  case Nil
  then show ?case by simp
next
  case (Cons row rws)
  show ?case
  proof (cases "i = m")
    case True
    then show ?thesis by (simp add: Let_def)
  next
    case False
    then have lt: "i + 1 \<le> m" using Cons.prems by simp
    have more: "m < (i + 1) + int (length rws)" using Cons.prems by simp
    have n: "nat (m - i) = Suc (nat (m - (i + 1)))" using lt by simp
    show ?thesis
      using lt Cons.IH[OF lt more, of "doc @ [pdfLine h (i + 1) row]"]
      by (simp add: Let_def n)
  qed
qed

text \<open>
  C4, as the source has it. With the row limit set to \<open>m\<close> (not negative): if more than
  \<open>m\<close> rows arrive the stream is destroyed with the error of the row limit, after the
  first \<open>m\<close> rows were written, and the message of that error is
  \<^verbatim>\<open>PDF row limit exceeded. max=m, received>m\<close>, which matches
  \<^verbatim>\<open>/PDF row limit exceeded/i\<close>; with at most \<open>m\<close> rows the document is ended normally
  with every row written. With no limit set it always ends normally.
\<close>

theorem createPdfStream_row_limit:
  assumes "0 \<le> m"
  shows
  "(m < int (length rws) \<longrightarrow>
      createPdfStream h rws (Some m) =
        (Some (PdfRowLimitExceeded m), ''Report'' # pdfLines h 0 (take (nat m) rws))
      \<and> errorMessage (PdfRowLimitExceeded m) =
          ''PDF row limit exceeded. max='' @ numberToString m @ '', received>''
            @ numberToString m
      \<and> containsCI ''PDF row limit exceeded'' (errorMessage (PdfRowLimitExceeded m)))
   \<and> (int (length rws) \<le> m \<longrightarrow>
      createPdfStream h rws (Some m) = (None, ''Report'' # pdfLines h 0 rws))
   \<and> createPdfStream h rws None = (None, ''Report'' # pdfLines h 0 rws)"
proof -
  have over: "m < int (length rws) \<longrightarrow>
      createPdfStream h rws (Some m) =
        (Some (PdfRowLimitExceeded m), ''Report'' # pdfLines h 0 (take (nat m) rws))"
    using pdfRows_over[where i = 0 and m = m and rws = rws and h = h and doc = "[''Report'']"]
      assms
    by (simp add: createPdfStream_def)
  have msg: "containsCI ''PDF row limit exceeded'' (errorMessage (PdfRowLimitExceeded m))"
    using containsCI_prefix[of "''PDF row limit exceeded''"
        "''. max='' @ numberToString m @ '', received>'' @ numberToString m"]
    by (simp del: containsCI.simps isPrefixCI.simps)
  have within: "int (length rws) \<le> m \<longrightarrow>
      createPdfStream h rws (Some m) = (None, ''Report'' # pdfLines h 0 rws)"
    using pdfRows_all[where pdfMaxRows = "Some m" and i = 0 and rws = rws and h = h
        and doc = "[''Report'']"]
    by (simp add: createPdfStream_def)
  have unset: "createPdfStream h rws None = (None, ''Report'' # pdfLines h 0 rws)"
    using pdfRows_all[where pdfMaxRows = None and i = 0 and rws = rws and h = h
        and doc = "[''Report'']"]
    by (simp add: createPdfStream_def)
  show ?thesis using over msg within unset by simp
qed

theorem createPdfStream_row_limit_witness:
  "(0::int) \<le> 1 \<and> 1 < int (length [Obj [(''id'', Num (Fin 1))], Obj [(''id'', Num (Fin 2))]])
   \<and> createPdfStream exampleHost [Obj [(''id'', Num (Fin 1))], Obj [(''id'', Num (Fin 2))]] (Some 1)
       = (Some (PdfRowLimitExceeded 1),
          [''Report'', pdfLine exampleHost 1 (Obj [(''id'', Num (Fin 1))])])
   \<and> errorMessage (PdfRowLimitExceeded 1) = ''PDF row limit exceeded. max=1, received>1''
   \<and> createPdfStream exampleHost [Obj [(''id'', Num (Fin 1))], Obj [(''id'', Num (Fin 2))]] (Some 2)
       = (None, [''Report'', pdfLine exampleHost 1 (Obj [(''id'', Num (Fin 1))]),
                 pdfLine exampleHost 2 (Obj [(''id'', Num (Fin 2))])])"
  using createPdfStream_row_limit
      [where m = 1 and rws = "[Obj [(''id'', Num (Fin 1))], Obj [(''id'', Num (Fin 2))]]"
         and h = exampleHost]
    createPdfStream_row_limit
      [where m = 2 and rws = "[Obj [(''id'', Num (Fin 1))], Obj [(''id'', Num (Fin 2))]]"
         and h = exampleHost]
  by (simp add: numberToString_def decimal.simps digitChar_def
        del: containsCI.simps)

text \<open>
  C4 as worded fails on the message: it does not match
  \<^verbatim>\<open>/document row limit exceeded/i\<close>.
\<close>

theorem createPdfStream_message_counterexample:
  "fst (createPdfStream exampleHost
          [Obj [(''id'', Num (Fin 1))], Obj [(''id'', Num (Fin 2))]] (Some 1))
     = Some (PdfRowLimitExceeded 1)
   \<and> errorMessage (PdfRowLimitExceeded 1) = ''PDF row limit exceeded. max=1, received>1''
   \<and> \<not> containsCI ''document row limit exceeded'' (errorMessage (PdfRowLimitExceeded 1))"
  by (simp add: createPdfStream_def numberToString_def decimal.simps digitChar_def
        lowerChar_def)

section \<open>Properties of the reduce engine\<close>

lemmas reduce_eval =
  consume_def consumeInto_def groupKey_def decodeGroup_def fromEntries_def getField_def
  orNull_def numericFrom_def mergeMetricValue_def newGroupState_def
  AVG_SUM_PREFIX_def AVG_COUNT_PREFIX_def INPUT_COUNT_FIELD_def
  toReduceSummary_def sortEntries_def outputRow_def metricOutput_def assignOutput_def
  reducePartitionRows_def exampleHost_def

lemma numericFrom_error: "numericFrom h v f = Inl e \<Longrightarrow> e = NonNumeric f"
  by (auto simp: numericFrom_def split: if_splits jsnum.splits)

lemma mergeMetricValue_error:
  "mergeMetricValue h st metric doc = Inl e \<Longrightarrow> \<exists>f. e = NonNumeric f"
  by (auto simp: mergeMetricValue_def Let_def
      split: if_splits sum.splits option.splits prod.splits dest: numericFrom_error)

lemma mergeMetrics_error:
  "fst (mergeMetrics h cur ms row) = Some e \<Longrightarrow> \<exists>f. e = NonNumeric f"
  by (induction ms arbitrary: cur) (auto split: sum.splits dest: mergeMetricValue_error)

lemma consumeInto_error:
  "fst (consumeInto h spec st key cur row) = Some e \<Longrightarrow> \<exists>f. e = NonNumeric f"
  by (auto simp: consumeInto_def Let_def split: sum.splits
      dest: numericFrom_error mergeMetrics_error)

lemma consumeInto_keys:
  "map fst (snd (consumeInto h spec st key cur row)) =
     (if fst (consumeInto h spec st key cur row) \<noteq> None \<and> (\<exists>f. numericFrom h (getField row INPUT_COUNT_FIELD) INPUT_COUNT_FIELD = Inl f)
      then map fst st else map fst (AList.update key cur st))"
  by (auto simp: consumeInto_def Let_def update_keys split: sum.splits)

lemma consume_cardinality_iff:
  "(fst (consume h spec maxGroups state row) = Some (ReduceCardinalityExceeded m))
     = (maxGroups = Some m \<and> map_of state (groupKey h spec row) = None
        \<and> m \<le> int (length state))"
  by (auto simp: consume_def groupKey_def Let_def split: option.splits
      dest: consumeInto_error)

lemma consume_cardinality_state:
  "fst (consume h spec maxGroups state row) = Some (ReduceCardinalityExceeded m) \<Longrightarrow>
   snd (consume h spec maxGroups state row) = state"
  by (auto simp: consume_def groupKey_def Let_def split: option.splits if_splits
      dest: consumeInto_error)

lemma consumeInto_distinct:
  "distinct (map fst st) \<Longrightarrow> distinct (map fst (snd (consumeInto h spec st key cur row)))"
  by (auto simp: consumeInto_def Let_def distinct_update split: sum.splits)

lemma consume_distinct:
  "distinct (map fst st) \<Longrightarrow> distinct (map fst (snd (consume h spec maxGroups st row)))"
  by (auto simp: consume_def Let_def distinct_update consumeInto_distinct split: option.splits)

lemma length_card_dom:
  "distinct (map fst st) \<Longrightarrow> length st = card (dom (map_of st))"
  by (metis distinct_card dom_map_of_conv_image_fst length_map list.set_map)


lemma region_first:
  "consume exampleHost regionCountSpec (Some 1) [] (regionRow ''us'' 1)
   = (None,
      [(stringifyPlain (Obj [(''region'', Str ''us'')]),
        \<lparr> group = [(''region'', Str ''us'')], values' = [(''orders'', Num (Fin 1))],
          averages = [], inputCount = 1 \<rparr>)])"
  by (simp add: reduce_eval regionCountSpec_def regionRow_def)

text \<open>
  C5. \<^verbatim>\<open>consume\<close> throws the cardinality error exactly when a bound \<open>m\<close> is set, the group
  key of the incoming partial is not stored, and the number of stored groups is \<open>m\<close> or
  more. The state after that throw is the state before it. A partial of a stored group
  never throws this error. The stored keys are distinct, before and after, so the
  length of the state is the number of stored groups.
\<close>

theorem consume_cardinality:
  "(fst (consume h spec maxGroups state row) = Some (ReduceCardinalityExceeded m))
     = (maxGroups = Some m \<and> map_of state (groupKey h spec row) = None
        \<and> m \<le> int (length state))
   \<and> (fst (consume h spec maxGroups state row) = Some (ReduceCardinalityExceeded m) \<longrightarrow>
        snd (consume h spec maxGroups state row) = state)
   \<and> (map_of state (groupKey h spec row) \<noteq> None \<longrightarrow>
        fst (consume h spec maxGroups state row) \<noteq> Some (ReduceCardinalityExceeded m))
   \<and> (distinct (map fst state) \<longrightarrow>
        length state = card (dom (map_of state))
        \<and> distinct (map fst (snd (consume h spec maxGroups state row))))"
  using consume_cardinality_iff[of h spec maxGroups state row m]
    consume_cardinality_state[of h spec maxGroups state row m]
    consume_distinct[of state h spec maxGroups row] length_card_dom[of state]
  by auto

theorem consume_cardinality_witness:
  "fst (consume exampleHost regionCountSpec (Some 1) [] (regionRow ''us'' 1)) = None
   \<and> distinct (map fst (snd (consume exampleHost regionCountSpec (Some 1) []
                                 (regionRow ''us'' 1))))
   \<and> map_of (snd (consume exampleHost regionCountSpec (Some 1) [] (regionRow ''us'' 1)))
        (groupKey exampleHost regionCountSpec (regionRow ''br'' 1)) = None
   \<and> consume exampleHost regionCountSpec (Some 1)
        (snd (consume exampleHost regionCountSpec (Some 1) [] (regionRow ''us'' 1)))
        (regionRow ''br'' 1)
      = (Some (ReduceCardinalityExceeded 1),
         snd (consume exampleHost regionCountSpec (Some 1) [] (regionRow ''us'' 1)))
   \<and> map_of (snd (consume exampleHost regionCountSpec (Some 1) [] (regionRow ''us'' 1)))
        (groupKey exampleHost regionCountSpec (regionRow ''us'' 2)) \<noteq> None
   \<and> fst (consume exampleHost regionCountSpec (Some 1)
        (snd (consume exampleHost regionCountSpec (Some 1) [] (regionRow ''us'' 1)))
        (regionRow ''us'' 2)) = None"
  using consume_cardinality
      [of exampleHost regionCountSpec "Some 1"
          "snd (consume exampleHost regionCountSpec (Some 1) [] (regionRow ''us'' 1))"
          "regionRow ''br'' 1" 1]
    consume_cardinality
      [of exampleHost regionCountSpec "Some 1"
          "snd (consume exampleHost regionCountSpec (Some 1) [] (regionRow ''us'' 1))"
          "regionRow ''us'' 2" 1]
  by (simp only: region_first snd_conv fst_conv)
     (simp add: reduce_eval regionCountSpec_def regionRow_def)

lemma mergeMetricValue_null_stays:
  assumes "op metric = OpMin \<or> op metric = OpMax"
    and "map_of (values' st) (as metric) = Some Null"
  shows "mergeMetricValue h st metric doc = Inr st"
  using assms
  by (auto simp: mergeMetricValue_def getField_def Let_def split: option.splits)

text \<open>
  C6, what the source does where the claim fails. The first partial value seeds the
  running value also when it is \<^verbatim>\<open>null\<close>, and a stored \<^verbatim>\<open>null\<close> has no comparable
  projection, so every later value is skipped: the partials \<^verbatim>\<open>null\<close> then 5 of one group
  give the minimum \<^verbatim>\<open>null\<close>, while 5 then \<^verbatim>\<open>null\<close> give 5.
\<close>

theorem mergeMetricValue_null_seed:
  "reducePartitionRows exampleHost minAmountSpec
      [minAmountRow Null, minAmountRow (Num (Fin 5))]
     = Inr \<lparr> rows = [[(''minAmount'', Null)]], rowsIn = 2, rowsOut = 1 \<rparr>
   \<and> reducePartitionRows exampleHost minAmountSpec
      [minAmountRow (Num (Fin 5)), minAmountRow Null]
     = Inr \<lparr> rows = [[(''minAmount'', Num (Fin 5))]], rowsIn = 2, rowsOut = 1 \<rparr>"
  by (simp add: reduce_eval minAmountSpec_def minAmountRow_def)

lemma consumeInto_ok_keys:
  "fst (consumeInto h spec st key cur row) = None \<Longrightarrow>
   map fst (snd (consumeInto h spec st key cur row)) = map fst (AList.update key cur st)"
  by (auto simp: consumeInto_def Let_def update_keys split: sum.splits)

lemma consume_ok_keys:
  assumes "fst (consume h spec mg st row) = None"
  shows "map fst (snd (consume h spec mg st row)) =
     (if groupKey h spec row \<in> set (map fst st) then map fst st
      else map fst st @ [groupKey h spec row])"
proof -
  let ?g = "decodeGroup (groupBy spec) (getField row ''_id'')"
  let ?key = "JSON_stringify h (Obj ?g)"
  have k: "groupKey h spec row = ?key" by (simp add: groupKey_def)
  show ?thesis
  proof (cases "map_of st ?key")
    case (Some cur)
    then have c: "consume h spec mg st row = consumeInto h spec st ?key cur row"
      by (simp add: consume_def Let_def)
    have "(?key, cur) \<in> set st" using Some by (rule map_of_SomeD)
    then have "?key \<in> set (map fst st)" by force
    then show ?thesis
      using consumeInto_ok_keys[of h spec st ?key cur row] assms c k
      by (simp add: update_keys)
  next
    case None
    let ?st = "AList.update ?key (newGroupState ?g) st"
    have c: "consume h spec mg st row = consumeInto h spec ?st ?key (newGroupState ?g) row"
      using None assms by (auto simp: consume_def Let_def split: option.splits if_splits)
    have fresh: "?key \<notin> set (map fst st)" using None by (simp add: map_of_eq_None_iff)
    then show ?thesis
      using consumeInto_ok_keys[of h spec ?st ?key "newGroupState ?g" row] assms c k
      by (simp add: update_keys)
  qed
qed

lemma consumeAll_keys:
  "distinct (map fst st) \<Longrightarrow> consumeAll h spec mg st rws = (None, st') \<Longrightarrow>
   set (map fst st') = set (map fst st) \<union> set (map (groupKey h spec) rws)
   \<and> distinct (map fst st')"
proof (induction rws arbitrary: st)
  case Nil
  then show ?case by simp
next
  case (Cons row rws)
  obtain e st1 where c: "consume h spec mg st row = (e, st1)" by (cases "consume h spec mg st row")
  with Cons.prems(2) have e: "e = None" and rest: "consumeAll h spec mg st1 rws = (None, st')"
    by (auto split: option.splits)
  have keys: "map fst st1 =
     (if groupKey h spec row \<in> set (map fst st) then map fst st
      else map fst st @ [groupKey h spec row])"
    using consume_ok_keys[of h spec mg st row] c e by simp
  then have d1: "distinct (map fst st1)" using Cons.prems(1) by (auto split: if_splits)
  from Cons.IH[OF d1 rest] keys show ?case by (auto split: if_splits)
qed

lemma mergeMetricValue_inputCount:
  "mergeMetricValue h st m doc = Inr st' \<Longrightarrow> inputCount st' = inputCount st"
  by (auto simp: mergeMetricValue_def Let_def split: if_splits sum.splits option.splits prod.splits)

lemma mergeMetrics_inputCount:
  "inputCount (snd (mergeMetrics h cur ms row)) = inputCount cur"
  by (induction ms arbitrary: cur) (auto split: sum.splits dest: mergeMetricValue_inputCount)

lemma sum_update_present:
  fixes f :: "'b \<Rightarrow> rat"
  shows "map_of al k = Some v \<Longrightarrow>
   sum_list (map (\<lambda>(key, x). f x) (AList.update k v' al))
     = sum_list (map (\<lambda>(key, x). f x) al) - f v + f v'"
  by (induction al) (auto split: if_splits)

lemma consumeInto_ok_sum:
  assumes "fst (consumeInto h spec st key cur row) = None" "map_of st key = Some cur0"
    "inputCount cur = inputCount cur0"
  shows "totalInput (snd (consumeInto h spec st key cur row)) = totalInput st + inputCountOf h row"
proof -
  obtain n where n: "numericFrom h (getField row INPUT_COUNT_FIELD) INPUT_COUNT_FIELD = Inr n"
    using assms(1) by (auto simp: consumeInto_def split: sum.splits)
  let ?r = "mergeMetrics h (cur\<lparr> inputCount := inputCount cur + n \<rparr>) (metrics spec) row"
  have "snd (consumeInto h spec st key cur row) = AList.update key (snd ?r) st"
    using n by (simp add: consumeInto_def Let_def)
  moreover have "inputCount (snd ?r) = inputCount cur + n"
    by (simp add: mergeMetrics_inputCount)
  ultimately show ?thesis
    using sum_update_present[OF assms(2), of inputCount "snd ?r"] n assms(3)
    by (simp add: totalInput_def inputCountOf_def)
qed

lemma consume_ok_sum:
  assumes "fst (consume h spec mg st row) = None"
  shows "totalInput (snd (consume h spec mg st row)) = totalInput st + inputCountOf h row"
proof -
  let ?g = "decodeGroup (groupBy spec) (getField row ''_id'')"
  let ?key = "JSON_stringify h (Obj ?g)"
  show ?thesis
  proof (cases "map_of st ?key")
    case (Some cur)
    then have c: "consume h spec mg st row = consumeInto h spec st ?key cur row"
      by (simp add: consume_def Let_def)
    show ?thesis
      using consumeInto_ok_sum[of h spec st ?key cur row cur] assms Some c by simp
  next
    case None
    let ?st = "AList.update ?key (newGroupState ?g) st"
    have c: "consume h spec mg st row = consumeInto h spec ?st ?key (newGroupState ?g) row"
      using None assms by (auto simp: consume_def Let_def split: option.splits if_splits)
    have fresh: "?key \<notin> fst ` set st" using None by (simp add: map_of_eq_None_iff)
    have m: "map_of ?st ?key = Some (newGroupState ?g)" by (simp add: update_conv')
    have t: "totalInput ?st = totalInput st"
      using update_fresh[OF fresh] by (simp add: totalInput_def newGroupState_def)
    show ?thesis
      using consumeInto_ok_sum[of h spec ?st ?key "newGroupState ?g" row "newGroupState ?g"]
        assms c m t by simp
  qed
qed

lemma consumeAll_sum:
  "consumeAll h spec mg st rws = (None, st') \<Longrightarrow>
   totalInput st' = totalInput st + sum_list (map (inputCountOf h) rws)"
proof (induction rws arbitrary: st)
  case Nil
  then show ?case by simp
next
  case (Cons row rws)
  obtain e st1 where c: "consume h spec mg st row = (e, st1)" by (cases "consume h spec mg st row")
  with Cons.prems have e: "e = None" and rest: "consumeAll h spec mg st1 rws = (None, st')"
    by (auto split: option.splits)
  have "totalInput st1 = totalInput st + inputCountOf h row"
    using consume_ok_sum[of h spec mg st row] c e by simp
  with Cons.IH[OF rest] show ?case by simp
qed

lemma insertEntry_set: "set (insertEntry h e xs) = insert e (set xs)"
  by (induction xs) auto

lemma insertEntry_length: "length (insertEntry h e xs) = Suc (length xs)"
  by (induction xs) auto

lemma insertEntry_sum:
  fixes f :: "string \<times> 'a \<Rightarrow> rat"
  shows "sum_list (map f (insertEntry h e xs)) = f e + sum_list (map f xs)"
  by (induction xs) auto

lemma sortEntries_set: "set (sortEntries h es) = set es"
  by (induction es) (simp_all add: sortEntries_def insertEntry_set)

lemma sortEntries_length: "length (sortEntries h es) = length es"
  by (induction es) (simp_all add: sortEntries_def insertEntry_length)

lemma sortEntries_sum:
  fixes f :: "string \<times> 'a \<Rightarrow> rat"
  shows "sum_list (map f (sortEntries h es)) = sum_list (map f es)"
  by (induction es) (simp_all add: sortEntries_def insertEntry_sum)

lemma sortEntries_distinct:
  assumes "distinct (map fst es)"
  shows "distinct (map fst (sortEntries h es))"
proof -
  have "card (set (map fst (sortEntries h es))) = length (map fst (sortEntries h es))"
    using assms distinct_card[of "map fst es"]
    by (simp add: sortEntries_set sortEntries_length)
  then show ?thesis by (rule card_distinct)
qed

lemma insertEntry_sorted:
  assumes total: "\<forall>a b. notAbove h a b \<or> notAbove h b a"
    and trans: "\<forall>a b c. notAbove h a b \<and> notAbove h b c \<longrightarrow> notAbove h a c"
  shows "sorted_wrt (notAbove h) (map fst xs) \<Longrightarrow>
         sorted_wrt (notAbove h) (map fst (insertEntry h e xs))"
proof (induction xs)
  case Nil
  then show ?case by simp
next
  case (Cons x xs)
  show ?case
  proof (cases "localeCompare h (fst e) (fst x) \<le> 0")
    case True
    then have ex: "notAbove h (fst e) (fst x)" by (simp add: notAbove_def)
    have "\<forall>y\<in>set xs. notAbove h (fst e) (fst y)"
    proof
      fix y assume "y \<in> set xs"
      then have "notAbove h (fst x) (fst y)" using Cons.prems by auto
      with ex show "notAbove h (fst e) (fst y)"
        using trans[rule_format, of "fst e" "fst x" "fst y"] by simp
    qed
    then show ?thesis using True Cons.prems ex by simp
  next
    case False
    then have xe: "notAbove h (fst x) (fst e)" using total by (auto simp: notAbove_def)
    have "sorted_wrt (notAbove h) (map fst (insertEntry h e xs))"
      using Cons.IH Cons.prems by simp
    moreover have "\<forall>y\<in>set (insertEntry h e xs). notAbove h (fst x) (fst y)"
      using Cons.prems xe by (auto simp: insertEntry_set)
    ultimately show ?thesis using False by simp
  qed
qed

lemma sortEntries_sorted:
  assumes total: "\<forall>a b. notAbove h a b \<or> notAbove h b a"
    and trans: "\<forall>a b c. notAbove h a b \<and> notAbove h b c \<longrightarrow> notAbove h a c"
  shows "sorted_wrt (notAbove h) (map fst (sortEntries h es))"
  by (induction es) (simp_all add: sortEntries_def insertEntry_sorted[OF total trans])


lemma assignOutput_other:
  "k \<noteq> key \<Longrightarrow> map_of (fst (assignOutput key x out)) k = map_of (fst out) k"
  by (simp add: assignOutput_def update_conv')

lemma assignOutput_same:
  "key \<noteq> ''__proto__'' \<Longrightarrow> map_of (fst (assignOutput key x out)) key = Some x"
  by (simp add: assignOutput_def update_conv')

lemma outputMetrics_other:
  "k \<notin> as ` set ms \<Longrightarrow> map_of (fst (outputMetrics v ms out)) k = map_of (fst out) k"
  by (induction ms arbitrary: out) (simp_all add: assignOutput_other)

lemma outputMetrics_alias:
  "distinct (map as ms) \<Longrightarrow> metric \<in> set ms \<Longrightarrow> as metric \<noteq> ''__proto__'' \<Longrightarrow>
   map_of (fst (outputMetrics v ms out)) (as metric) = Some (metricOutput v metric)"
proof (induction ms arbitrary: out)
  case Nil
  then show ?case by simp
next
  case (Cons m ms)
  show ?case
  proof (cases "metric = m")
    case True
    then have "as metric \<notin> as ` set ms" using Cons.prems(1) by auto
    then show ?thesis
      using True Cons.prems(3) by (simp add: outputMetrics_other assignOutput_same)
  next
    case False
    then show ?thesis using Cons by simp
  qed
qed

lemma validateMetrics_distinct:
  "validateMetrics aliases ms = None \<Longrightarrow>
   distinct (map as ms) \<and> set (map as ms) \<inter> set aliases = {}"
proof (induction ms arbitrary: aliases)
  case Nil
  then show ?case by simp
next
  case (Cons m ms)
  from Cons.prems have fresh: "as m \<notin> set aliases"
    and rest: "validateMetrics (as m # aliases) ms = None"
    by (simp_all split: if_splits)
  from Cons.IH[OF rest] have d: "distinct (map as ms)"
    and i: "set (map as ms) \<inter> set (as m # aliases) = {}" by simp_all
  from i have "as m \<notin> set (map as ms)" and "set (map as ms) \<inter> set aliases = {}" by auto
  with d fresh show ?case by auto
qed

lemma validateReduceSpec_distinct:
  "validateReduceSpec spec = None \<Longrightarrow> distinct (map as (metrics spec)) \<and> metrics spec \<noteq> []"
  using validateMetrics_distinct[of "[]" "metrics spec"]
  by (auto simp: validateReduceSpec_def split: if_splits option.splits)

lemma avg_output:
  assumes "validateReduceSpec spec = None" "metric \<in> set (metrics spec)" "op metric = OpAvg"
    and "as metric \<noteq> ''__proto__''"
  shows "getField (outputRow spec v) (as metric) =
           (case map_of (averages v) (as metric) of
              None \<Rightarrow> Null
            | Some a \<Rightarrow> if count a = 0 then Null else Num (Fin (sum' a / count a)))"
  using outputMetrics_alias[of "metrics spec" metric v "(group v, True)"]
    validateReduceSpec_distinct[OF assms(1)] assms(2,3,4)
  by (simp add: getField_def outputRow_def metricOutput_def split: option.splits)

lemma sorted_distinct_unique:
  "\<forall>a\<in>set xs. \<forall>b\<in>set xs. le a b \<and> le b a \<longrightarrow> a = b \<Longrightarrow>
   sorted_wrt le xs \<Longrightarrow> distinct xs \<Longrightarrow> sorted_wrt le ys \<Longrightarrow> distinct ys \<Longrightarrow>
   set xs = set ys \<Longrightarrow> xs = ys"
proof (induction xs arbitrary: ys)
  case Nil
  then show ?case by simp
next
  case (Cons x xs)
  obtain y ys' where ys: "ys = y # ys'" using Cons.prems(6) by (cases ys) auto
  have xy: "x = y"
  proof (rule ccontr)
    assume ne: "x \<noteq> y"
    have "x \<in> set ys'" using Cons.prems(6) ys ne by auto
    then have 1: "le y x" using Cons.prems(4) ys by simp
    have yxs: "y \<in> set xs" using Cons.prems(6) ys ne by auto
    then have 2: "le x y" using Cons.prems(2) by simp
    have "x \<in> set (x # xs)" "y \<in> set (x # xs)" using yxs by simp_all
    with 1 2 Cons.prems(1) have "x = y" by blast
    with ne show False by simp
  qed
  have sets: "set xs = set ys'"
  proof -
    have "x \<notin> set xs" "y \<notin> set ys'" using Cons.prems(3,5) ys by simp_all
    moreover have "insert x (set xs) = insert y (set ys')" using Cons.prems(6) ys by simp
    ultimately show ?thesis using xy by auto
  qed
  have anti': "\<forall>a\<in>set xs. \<forall>b\<in>set xs. le a b \<and> le b a \<longrightarrow> a = b"
    using Cons.prems(1) by simp
  have "xs = ys'"
    using Cons.IH[OF anti' _ _ _ _ sets] Cons.prems(2,3,4,5) ys by simp
  with xy ys show ?case by simp
qed

lemma compareStrings_total: "compareStrings a b \<le> 0 \<or> compareStrings b a \<le> 0"
  by (induction a b rule: compareStrings.induct) auto

lemma compareStrings_trans:
  "compareStrings a b \<le> 0 \<Longrightarrow> compareStrings b c \<le> 0 \<Longrightarrow> compareStrings a c \<le> 0"
proof (induction a b arbitrary: c rule: compareStrings.induct)
  case 1
  then show ?case by simp
next
  case (2 y ys)
  then show ?case by (cases c) simp_all
next
  case (3 x xs)
  then show ?case by simp
next
  case (4 x xs y ys)
  show ?case
  proof (cases c)
    case Nil
    with "4.prems"(2) show ?thesis by simp
  next
    case (Cons z zs)
    let ?X = "of_char x :: nat" and ?Y = "of_char y :: nat" and ?Z = "of_char z :: nat"
    have xy: "?X \<le> ?Y" using "4.prems"(1) by (simp split: if_splits)
    have yz: "?Y \<le> ?Z" using "4.prems"(2) Cons by (simp split: if_splits)
    show ?thesis
    proof (cases "?X < ?Z")
      case True
      then show ?thesis using Cons by simp
    next
      case False
      have n1: "?X = ?Y" and n2: "?Y = ?Z" using xy yz False by linarith+
      have e1: "x = y" using n1 by (simp only: of_char_eq_iff)
      have e2: "y = z" using n2 by (simp only: of_char_eq_iff)
      have a: "compareStrings xs ys \<le> 0" using "4.prems"(1) e1 by simp
      have b: "compareStrings ys zs \<le> 0" using "4.prems"(2) e2 Cons by simp
      have "compareStrings xs zs \<le> 0"
        using "4.IH"[of zs] e1 a b by simp
      then show ?thesis using Cons e1 e2 by simp
    qed
  qed
qed

lemma compareStrings_antisym:
  "compareStrings a b \<le> 0 \<Longrightarrow> compareStrings b a \<le> 0 \<Longrightarrow> a = b"
  by (induction a b rule: compareStrings.induct) (auto split: if_splits)


text \<open>
  What holds of \<^verbatim>\<open>finalize\<close> for a valid reduce spec and partial rows that were all
  consumed, with a comparator that is a total preorder: the output rows are the rows
  of the stored groups in the sorted order of their keys; the keys are distinct and
  are exactly the group keys of the partials, so there is one output row per distinct
  group; the keys ascend in the order of the comparator; \<^verbatim>\<open>rowsOut\<close> and the number of
  rows are the number of distinct groups; \<^verbatim>\<open>rowsIn\<close> is the sum of the partials' input
  counts; every \<^verbatim>\<open>avg\<close> metric whose alias is not \<^verbatim>\<open>__proto__\<close> is output as the quotient
  of its accumulated sum and count, or \<^verbatim>\<open>null\<close> when the count is 0 or nothing was
  accumulated. Where no two distinct keys compare equal, the sequence of keys in the
  output is the same for every other run over partials with the same set of group
  keys, whatever their order.
\<close>

lemma toReduceSummary_groups:
  assumes valid: "validateReduceSpec spec = None"
    and run: "consumeAll h spec maxGroups [] partials = (None, state)"
    and total: "\<forall>a b. notAbove h a b \<or> notAbove h b a"
    and trans: "\<forall>a b c. notAbove h a b \<and> notAbove h b c \<longrightarrow> notAbove h a c"
  shows
   "rows (toReduceSummary h spec state)
      = map (\<lambda>(key, v). outputRow spec v) (sortEntries h state)
    \<and> distinct (map fst (sortEntries h state))
    \<and> set (map fst (sortEntries h state)) = set (map (groupKey h spec) partials)
    \<and> sorted_wrt (notAbove h) (map fst (sortEntries h state))
    \<and> length (rows (toReduceSummary h spec state))
        = card (set (map (groupKey h spec) partials))
    \<and> rowsOut (toReduceSummary h spec state) = card (set (map (groupKey h spec) partials))
    \<and> rowsIn (toReduceSummary h spec state) = sum_list (map (inputCountOf h) partials)
    \<and> (\<forall>(key, v) \<in> set (sortEntries h state). \<forall>metric \<in> set (metrics spec).
          op metric = OpAvg \<and> as metric \<noteq> ''__proto__'' \<longrightarrow>
          getField (outputRow spec v) (as metric) =
            (case map_of (averages v) (as metric) of
               None \<Rightarrow> Null
             | Some a \<Rightarrow> if count a = 0 then Null else Num (Fin (sum' a / count a))))
    \<and> ((\<forall>a \<in> set (map (groupKey h spec) partials).
           \<forall>b \<in> set (map (groupKey h spec) partials).
             notAbove h a b \<and> notAbove h b a \<longrightarrow> a = b) \<longrightarrow>
        (\<forall>partials' state' maxGroups'.
            consumeAll h spec maxGroups' [] partials' = (None, state')
            \<and> set (map (groupKey h spec) partials') = set (map (groupKey h spec) partials)
            \<longrightarrow> map fst (sortEntries h state') = map fst (sortEntries h state)))"
proof -
  let ?K = "set (map (groupKey h spec) partials)"
  let ?sorted = "sortEntries h state"
  have keys: "set (map fst state) = ?K" and dist: "distinct (map fst state)"
    using consumeAll_keys[of "[]" h spec maxGroups partials state] run by simp_all
  have r: "rows (toReduceSummary h spec state) = map (\<lambda>(key, v). outputRow spec v) ?sorted"
    by (simp add: toReduceSummary_def Let_def)
  have d: "distinct (map fst ?sorted)" using dist by (rule sortEntries_distinct)
  have k: "set (map fst ?sorted) = ?K" using keys by (simp add: sortEntries_set)
  have s: "sorted_wrt (notAbove h) (map fst ?sorted)"
    using total trans by (rule sortEntries_sorted)
  have "length state = card ?K"
    using distinct_card[OF dist] keys by simp
  then have l: "length (rows (toReduceSummary h spec state)) = card ?K"
    by (simp add: r sortEntries_length)
  have ro: "rowsOut (toReduceSummary h spec state) = card ?K"
    using l by (simp add: toReduceSummary_def Let_def)
  have "rowsIn (toReduceSummary h spec state) = totalInput state"
    using sortEntries_sum[of "\<lambda>(key, v). inputCount v" h state]
    by (simp add: toReduceSummary_def Let_def totalInput_def)
  then have ri: "rowsIn (toReduceSummary h spec state) = sum_list (map (inputCountOf h) partials)"
    using consumeAll_sum[OF run] by (simp add: totalInput_def)
  have avg: "\<forall>(key, v) \<in> set ?sorted. \<forall>metric \<in> set (metrics spec).
          op metric = OpAvg \<and> as metric \<noteq> ''__proto__'' \<longrightarrow>
          getField (outputRow spec v) (as metric) =
            (case map_of (averages v) (as metric) of
               None \<Rightarrow> Null
             | Some a \<Rightarrow> if count a = 0 then Null else Num (Fin (sum' a / count a)))"
    using avg_output[OF valid] by auto
  have det: "(\<forall>a \<in> ?K. \<forall>b \<in> ?K. notAbove h a b \<and> notAbove h b a \<longrightarrow> a = b) \<longrightarrow>
        (\<forall>partials' state' maxGroups'.
            consumeAll h spec maxGroups' [] partials' = (None, state')
            \<and> set (map (groupKey h spec) partials') = ?K
            \<longrightarrow> map fst (sortEntries h state') = map fst ?sorted)"
  proof (intro impI allI)
    fix partials' state' maxGroups'
    assume anti: "\<forall>a \<in> ?K. \<forall>b \<in> ?K. notAbove h a b \<and> notAbove h b a \<longrightarrow> a = b"
    assume h2: "consumeAll h spec maxGroups' [] partials' = (None, state')
            \<and> set (map (groupKey h spec) partials') = ?K"
    have keys': "set (map fst state') = ?K" and dist': "distinct (map fst state')"
      using consumeAll_keys[of "[]" h spec maxGroups' partials' state'] h2 by simp_all
    have d': "distinct (map fst (sortEntries h state'))" using dist' by (rule sortEntries_distinct)
    have k': "set (map fst (sortEntries h state')) = ?K" using keys' by (simp add: sortEntries_set)
    have s': "sorted_wrt (notAbove h) (map fst (sortEntries h state'))"
      using total trans by (rule sortEntries_sorted)
    have anti': "\<forall>a\<in>set (map fst (sortEntries h state')).
                   \<forall>b\<in>set (map fst (sortEntries h state')).
                     notAbove h a b \<and> notAbove h b a \<longrightarrow> a = b"
      using anti unfolding k' .
    show "map fst (sortEntries h state') = map fst ?sorted"
      using sorted_distinct_unique[OF anti' s' d' s d] k k' by simp
  qed
  show ?thesis using r d k s l ro ri avg det by blast
qed


lemma exampleHost_notAbove: "notAbove exampleHost a b = (compareStrings a b \<le> 0)"
  by (simp add: notAbove_def exampleHost_def)

lemma ordersAvg_run:
  "consumeAll exampleHost ordersAvgSpec None []
     [ordersAvgRow ''us'' 2 30, ordersAvgRow ''us'' 1 15, ordersAvgRow ''br'' 1 5]
   = (None,
      [(stringifyPlain (Obj [(''region'', Str ''us'')]),
        \<lparr> group = [(''region'', Str ''us'')],
          values' = [(''orders'', Num (Fin 3))],
          averages = [(''avgAmount'', \<lparr> sum' = 45, count = 3 \<rparr>)],
          inputCount = 3 \<rparr>),
       (stringifyPlain (Obj [(''region'', Str ''br'')]),
        \<lparr> group = [(''region'', Str ''br'')],
          values' = [(''orders'', Num (Fin 1))],
          averages = [(''avgAmount'', \<lparr> sum' = 5, count = 1 \<rparr>)],
          inputCount = 1 \<rparr>)])"
  by (simp add: reduce_eval ordersAvgSpec_def ordersAvgRow_def)

lemma ordersAvg_summary:
  "validateReduceSpec ordersAvgSpec = None
   \<and> fst (consumeAll exampleHost ordersAvgSpec None []
            [ordersAvgRow ''us'' 2 30, ordersAvgRow ''us'' 1 15, ordersAvgRow ''br'' 1 5]) = None
   \<and> toReduceSummary exampleHost ordersAvgSpec
        (snd (consumeAll exampleHost ordersAvgSpec None []
               [ordersAvgRow ''us'' 2 30, ordersAvgRow ''us'' 1 15, ordersAvgRow ''br'' 1 5]))
      = \<lparr> rows = [[(''region'', Str ''br''), (''orders'', Num (Fin 1)),
                    (''avgAmount'', Num (Fin 5))],
                   [(''region'', Str ''us''), (''orders'', Num (Fin 3)),
                    (''avgAmount'', Num (Fin 15))]],
           rowsIn = 4, rowsOut = 2 \<rparr>
   \<and> sum_list (map (inputCountOf exampleHost)
        [ordersAvgRow ''us'' 2 30, ordersAvgRow ''us'' 1 15, ordersAvgRow ''br'' 1 5]) = 4
   \<and> card (set (map (groupKey exampleHost ordersAvgSpec)
        [ordersAvgRow ''us'' 2 30, ordersAvgRow ''us'' 1 15, ordersAvgRow ''br'' 1 5])) = 2"
proof -
  let ?P = "[ordersAvgRow ''us'' 2 30, ordersAvgRow ''us'' 1 15, ordersAvgRow ''br'' 1 5]"
  let ?st = "snd (consumeAll exampleHost ordersAvgSpec None [] ?P)"
  have valid: "validateReduceSpec ordersAvgSpec = None"
    by (simp add: validateReduceSpec_def ordersAvgSpec_def isIdentifier_def isWordChar_def)
  have run: "consumeAll exampleHost ordersAvgSpec None [] ?P = (None, ?st)"
    by (simp only: ordersAvg_run snd_conv)
  have total: "\<forall>a b. notAbove exampleHost a b \<or> notAbove exampleHost b a"
    by (simp add: exampleHost_notAbove compareStrings_total)
  have trans: "\<forall>a b c. notAbove exampleHost a b \<and> notAbove exampleHost b c
                 \<longrightarrow> notAbove exampleHost a c"
    using compareStrings_trans by (auto simp: exampleHost_notAbove)
  have summary: "toReduceSummary exampleHost ordersAvgSpec ?st
      = \<lparr> rows = [[(''region'', Str ''br''), (''orders'', Num (Fin 1)),
                    (''avgAmount'', Num (Fin 5))],
                   [(''region'', Str ''us''), (''orders'', Num (Fin 3)),
                    (''avgAmount'', Num (Fin 15))]],
           rowsIn = 4, rowsOut = 2 \<rparr>"
    by (simp only: ordersAvg_run snd_conv)
       (simp add: toReduceSummary_def sortEntries_def outputRow_def assignOutput_def
          metricOutput_def getField_def orNull_def exampleHost_def ordersAvgSpec_def)
  have ok: "fst (consumeAll exampleHost ordersAvgSpec None [] ?P) = None"
    by (simp only: ordersAvg_run fst_conv)
  note F = toReduceSummary_groups[OF valid run total trans]
  have "rowsIn (toReduceSummary exampleHost ordersAvgSpec ?st)
          = sum_list (map (inputCountOf exampleHost) ?P)"
    using F by blast
  then have inputs: "sum_list (map (inputCountOf exampleHost) ?P) = 4"
    by (simp only: summary ReduceSummary.simps)
  have "rowsOut (toReduceSummary exampleHost ordersAvgSpec ?st)
          = card (set (map (groupKey exampleHost ordersAvgSpec) ?P))"
    using F by blast
  then have groups: "card (set (map (groupKey exampleHost ordersAvgSpec) ?P)) = 2"
    by (simp only: summary ReduceSummary.simps)
  show ?thesis
    using valid ok summary inputs groups by (simp only: simp_thms)
qed

text \<open>
  C9, what the source does where the claim fails. The rows that \<^verbatim>\<open>finalize\<close> emits are
  not determined by the multiset of partials. A \<^verbatim>\<open>null\<close> partial that arrives first
  seeds the running maximum of its group and every later value of the group is
  skipped, so the same three partials of a valid spec give the maximum \<^verbatim>\<open>null\<close> for
  the group in one order and the maximum 7 in the other, with the same \<^verbatim>\<open>rowsIn\<close> and
  \<^verbatim>\<open>rowsOut\<close>. And an \<^verbatim>\<open>avg\<close> metric is not always output: the alias \<^verbatim>\<open>__proto__\<close> passes
  the validation, and the assignment of the quotient under it stores nothing in the
  row.
\<close>

theorem finalize_order_dependent:
  "validateReduceSpec maxAmountSpec = None
   \<and> reducePartitionRows exampleHost maxAmountSpec
        [maxAmountRow ''us'' Null, maxAmountRow ''us'' (Num (Fin 7)),
         maxAmountRow ''br'' (Num (Fin 3))]
      = Inr \<lparr> rows = [[(''region'', Str ''br''), (''maxAmount'', Num (Fin 3))],
                       [(''region'', Str ''us''), (''maxAmount'', Null)]],
               rowsIn = 3, rowsOut = 2 \<rparr>
   \<and> reducePartitionRows exampleHost maxAmountSpec
        [maxAmountRow ''us'' (Num (Fin 7)), maxAmountRow ''us'' Null,
         maxAmountRow ''br'' (Num (Fin 3))]
      = Inr \<lparr> rows = [[(''region'', Str ''br''), (''maxAmount'', Num (Fin 3))],
                       [(''region'', Str ''us''), (''maxAmount'', Num (Fin 7))]],
               rowsIn = 3, rowsOut = 2 \<rparr>
   \<and> (\<forall>row. count_list [maxAmountRow ''us'' Null, maxAmountRow ''us'' (Num (Fin 7)),
                           maxAmountRow ''br'' (Num (Fin 3))] row
             = count_list [maxAmountRow ''us'' (Num (Fin 7)), maxAmountRow ''us'' Null,
                           maxAmountRow ''br'' (Num (Fin 3))] row)
   \<and> validateReduceSpec protoAvgSpec = None
   \<and> reducePartitionRows exampleHost protoAvgSpec [protoAvgRow ''us'' 2 30]
      = Inr \<lparr> rows = [[(''region'', Str ''us'')]], rowsIn = 2, rowsOut = 1 \<rparr>"
proof -
  have v1: "validateReduceSpec maxAmountSpec = None"
    by (simp add: validateReduceSpec_def maxAmountSpec_def isIdentifier_def isWordChar_def)
  have v2: "validateReduceSpec protoAvgSpec = None"
    by (simp add: validateReduceSpec_def protoAvgSpec_def isIdentifier_def isWordChar_def)
  have r1: "reducePartitionRows exampleHost maxAmountSpec
        [maxAmountRow ''us'' Null, maxAmountRow ''us'' (Num (Fin 7)),
         maxAmountRow ''br'' (Num (Fin 3))]
      = Inr \<lparr> rows = [[(''region'', Str ''br''), (''maxAmount'', Num (Fin 3))],
                       [(''region'', Str ''us''), (''maxAmount'', Null)]],
               rowsIn = 3, rowsOut = 2 \<rparr>"
    by (simp add: reduce_eval maxAmountSpec_def maxAmountRow_def)
  have r2: "reducePartitionRows exampleHost maxAmountSpec
        [maxAmountRow ''us'' (Num (Fin 7)), maxAmountRow ''us'' Null,
         maxAmountRow ''br'' (Num (Fin 3))]
      = Inr \<lparr> rows = [[(''region'', Str ''br''), (''maxAmount'', Num (Fin 3))],
                       [(''region'', Str ''us''), (''maxAmount'', Num (Fin 7))]],
               rowsIn = 3, rowsOut = 2 \<rparr>"
    by (simp add: reduce_eval maxAmountSpec_def maxAmountRow_def)
  have same: "\<forall>row. count_list [maxAmountRow ''us'' Null, maxAmountRow ''us'' (Num (Fin 7)),
                           maxAmountRow ''br'' (Num (Fin 3))] row
             = count_list [maxAmountRow ''us'' (Num (Fin 7)), maxAmountRow ''us'' Null,
                           maxAmountRow ''br'' (Num (Fin 3))] row"
    by simp
  have r3: "reducePartitionRows exampleHost protoAvgSpec [protoAvgRow ''us'' 2 30]
      = Inr \<lparr> rows = [[(''region'', Str ''us'')]], rowsIn = 2, rowsOut = 1 \<rparr>"
    by (simp add: reduce_eval protoAvgSpec_def protoAvgRow_def)
  show ?thesis using v1 r1 r2 same v2 r3 by (simp only: simp_thms)
qed

end
